theory Spec2Isabelle
  imports Main "HOL-Library.Word" "HOL-Library.Monad_Syntax"
begin

section \<open>Bytes, C characters and C strings\<close>

text \<open>
  A C \<^verbatim>\<open>char\<close> is a byte. The lexer mixes \<^verbatim>\<open>char\<close> and \<^verbatim>\<open>int\<close>:
  \<^verbatim>\<open>c = stream->buffer[...]\<close> promotes a \<^verbatim>\<open>char\<close> to \<^verbatim>\<open>int\<close> (signed on the
  x86-64 targets: bytes from 0x80 on become negative, written out in \<open>char_to_int\<close>), and \<^verbatim>\<open>buffer[0] = c\<close> or
  \<^verbatim>\<open>strbuffer_append_byte(.., c)\<close> truncate an \<^verbatim>\<open>int\<close> to a byte.
\<close>

type_synonym byte = "8 word"

definition char_to_int :: "byte \<Rightarrow> int" where
  "char_to_int b = (if uint b < 0x80 then uint b else uint b - 0x100)"

definition int_to_char :: "int \<Rightarrow> byte" where
  "int_to_char c = word_of_int c"

text \<open>A string literal of the source, as bytes.\<close>

definition str :: "string \<Rightarrow> byte list" where
  "str s = map of_char s"

text \<open>A character literal of the source, as the \<^verbatim>\<open>int\<close> it is in C.\<close>

abbreviation (input) ch :: "char \<Rightarrow> int" where
  "ch x \<equiv> of_char x"

abbreviation (input) EOF :: int where "EOF \<equiv> - 1"

text \<open>
  The three states of a stream, \<^verbatim>\<open>#define\<close>d as the integers 0, -1 and -2 that
  \<^verbatim>\<open>stream_get\<close> also returns as sentinels.
\<close>

datatype stream_state = STREAM_STATE_OK | STREAM_STATE_EOF | STREAM_STATE_ERROR

fun state_code :: "stream_state \<Rightarrow> int" where
  "state_code STREAM_STATE_OK = 0"
| "state_code STREAM_STATE_EOF = - 1"
| "state_code STREAM_STATE_ERROR = - 2"

abbreviation (input) C_EOF :: int where "C_EOF \<equiv> state_code STREAM_STATE_EOF"
abbreviation (input) C_ERROR :: int where "C_ERROR \<equiv> state_code STREAM_STATE_ERROR"

abbreviation (input) TOKEN_INVALID :: int where "TOKEN_INVALID \<equiv> - 1"
abbreviation (input) TOKEN_EOF :: int where "TOKEN_EOF \<equiv> 0"
abbreviation (input) TOKEN_STRING :: int where "TOKEN_STRING \<equiv> 256"
abbreviation (input) TOKEN_INTEGER :: int where "TOKEN_INTEGER \<equiv> 257"
abbreviation (input) TOKEN_REAL :: int where "TOKEN_REAL \<equiv> 258"
abbreviation (input) TOKEN_TRUE :: int where "TOKEN_TRUE \<equiv> 259"
abbreviation (input) TOKEN_FALSE :: int where "TOKEN_FALSE \<equiv> 260"
abbreviation (input) TOKEN_NULL :: int where "TOKEN_NULL \<equiv> 261"

subsection \<open>Locale independent versions of the isxxx() macros\<close>

definition l_isupper :: "int \<Rightarrow> bool" where
  "l_isupper c = (ch CHR ''A'' \<le> c \<and> c \<le> ch CHR ''Z'')"

definition l_islower :: "int \<Rightarrow> bool" where
  "l_islower c = (ch CHR ''a'' \<le> c \<and> c \<le> ch CHR ''z'')"

definition l_isalpha :: "int \<Rightarrow> bool" where
  "l_isalpha c = (l_isupper c \<or> l_islower c)"

definition l_isdigit :: "int \<Rightarrow> bool" where
  "l_isdigit c = (ch CHR ''0'' \<le> c \<and> c \<le> ch CHR ''9'')"

text \<open>
  The macro as the source writes it, a chain of five disjuncts:
  \<^verbatim>\<open>(l_isdigit(c) || 'A' <= (c) || (c) <= 'F' || 'a' <= (c) || (c) <= 'f')\<close>.
\<close>

definition l_isxdigit :: "int \<Rightarrow> bool" where
  "l_isxdigit c =
     (l_isdigit c \<or> ch CHR ''A'' \<le> c \<or> c \<le> ch CHR ''F'' \<or> ch CHR ''a'' \<le> c \<or> c \<le> ch CHR ''f'')"

subsection \<open>printf conversions used in the messages\<close>

definition hex_digit :: "bool \<Rightarrow> nat \<Rightarrow> byte" where
  "hex_digit upper d =
     (if d < 10 then of_nat (48 + d)
      else if upper then of_nat (65 + (d - 10)) else of_nat (97 + (d - 10)))"

function to_hex :: "bool \<Rightarrow> nat \<Rightarrow> byte list" where
  "to_hex upper n =
     (if n < 16 then [hex_digit upper n]
      else to_hex upper (n div 16) @ [hex_digit upper (n mod 16)])"
  by pat_completeness auto
termination
  by (relation "measure (\<lambda>(u, n). n)") auto

declare to_hex.simps [simp del]

text \<open>\<^verbatim>\<open>%x\<close> of an \<^verbatim>\<open>int\<close>: the value read as an unsigned 32-bit number, lower case.\<close>

definition fmt_x :: "int \<Rightarrow> byte list" where
  "fmt_x c = to_hex False (nat (c mod 2 ^ 32))"

text \<open>\<^verbatim>\<open>%04X\<close>: upper case, padded with zeros to four digits.\<close>

definition fmt_04X :: "int \<Rightarrow> byte list" where
  "fmt_04X v =
     (let ds = to_hex True (nat (v mod 2 ^ 32))
      in replicate (4 - length ds) (of_char CHR ''0'') @ ds)"

section \<open>UTF-8 helpers\<close>

text \<open>
  Modelled from the spec: \<^verbatim>\<open>utf8_check_first\<close>, \<^verbatim>\<open>utf8_check_full\<close> and
  \<^verbatim>\<open>utf8_encode\<close> are declared in utf.h and not part of load.cpp. The spec: a byte with
  the high bit unset is a complete one-byte character; a valid multi-byte lead byte
  announces the length of its sequence; the full sequence is validated for length,
  continuation-byte shape, and no overlong or surrogate encodings; a code point is
  UTF-8-encoded.

  \<open>utf8_check_first\<close> gives the length of the sequence a byte starts, 0 when the byte
  starts none (a continuation byte, or a byte no UTF-8 text contains).
\<close>

definition utf8_check_first :: "byte \<Rightarrow> nat" where
  "utf8_check_first b =
     (let u = uint b in
      if u < 0x80 then 1
      else if 0x80 \<le> u \<and> u \<le> 0xBF then 0
      else if u = 0xC0 \<or> u = 0xC1 then 0
      else if 0xC2 \<le> u \<and> u \<le> 0xDF then 2
      else if 0xE0 \<le> u \<and> u \<le> 0xEF then 3
      else if 0xF0 \<le> u \<and> u \<le> 0xF4 then 4
      else 0)"

fun utf8_cont :: "byte list \<Rightarrow> int \<Rightarrow> int option" where
  "utf8_cont [] v = Some v"
| "utf8_cont (b # bs) v =
     (let u = uint b in
      if u < 0x80 \<or> u > 0xBF then None
      else utf8_cont bs (v * 64 + (u mod 64)))"

definition utf8_check_full :: "byte list \<Rightarrow> nat \<Rightarrow> bool" where
  "utf8_check_full buf n =
     (if n < 2 \<or> n > 4 \<or> length buf < n then False
      else
        let u = uint (buf ! 0);
            v0 = (if n = 2 then u mod 32 else if n = 3 then u mod 16 else u mod 8)
        in case utf8_cont (take (n - 1) (drop 1 buf)) v0 of
             None \<Rightarrow> False
           | Some v \<Rightarrow>
               if v > 0x10FFFF then False
               else if 0xD800 \<le> v \<and> v \<le> 0xDFFF then False
               else if (n = 2 \<and> v < 0x80) \<or> (n = 3 \<and> v < 0x800) \<or>
                       (n = 4 \<and> v < 0x10000) then False
               else True)"

definition utf8_encode :: "int \<Rightarrow> byte list option" where
  "utf8_encode cp =
     (if cp < 0 then None
      else if cp < 0x80 then Some [word_of_int cp]
      else if cp < 0x800 then
        Some [word_of_int (0xC0 + cp div 64), word_of_int (0x80 + cp mod 64)]
      else if cp < 0x10000 then
        Some [word_of_int (0xE0 + cp div 4096), word_of_int (0x80 + (cp div 64) mod 64),
              word_of_int (0x80 + cp mod 64)]
      else if cp \<le> 0x10FFFF then
        Some [word_of_int (0xF0 + cp div 262144), word_of_int (0x80 + (cp div 4096) mod 64),
              word_of_int (0x80 + (cp div 64) mod 64), word_of_int (0x80 + cp mod 64)]
      else None)"

section \<open>The data model\<close>

text \<open>
  \<^verbatim>\<open>stream_t\<close>. The pair \<^verbatim>\<open>get\<close>/\<^verbatim>\<open>data\<close> is the byte source: it is modelled by
  the finite sequence of answers the successive calls of \<^verbatim>\<open>get\<close> give, \<open>Some b\<close> for a
  byte and \<open>None\<close> for \<^verbatim>\<open>EOF\<close>; a source that is used up answers \<^verbatim>\<open>EOF\<close>. The
  \<^verbatim>\<open>buffer\<close> is the array of five characters; \<^verbatim>\<open>stream_init\<close> sets the first and
  leaves the others as they are (no cell is read before it is written), the model
  starts them at NUL. \<^verbatim>\<open>position\<close> and \<^verbatim>\<open>buffer_pos\<close> are
  \<^verbatim>\<open>size_t\<close>, \<^verbatim>\<open>line\<close> and the columns \<^verbatim>\<open>int\<close>: counters of bytes read, far
  from their bounds.
\<close>

record stream_t =
  data :: "byte option list"
  buffer :: "byte list"
  buffer_pos :: nat
  state :: stream_state
  line :: int
  column :: int
  last_column :: int
  position :: nat

text \<open>
  A finite \<^verbatim>\<open>double\<close>: \<open>Double neg n q\<close> is the number \<open>n * 2 ^ q\<close>, negated when \<open>neg\<close>
  holds. Every finite double has one such form with \<open>2 ^ 52 \<le> n < 2 ^ 53\<close> and
  \<open>- 1074 \<le> q \<le> 971\<close> (a normal number) or \<open>n < 2 ^ 52\<close> and \<open>q = - 1074\<close> (zero or a
  subnormal number); only these forms are built.
\<close>

datatype double = Double bool int int

text \<open>The union \<^verbatim>\<open>value\<close> of \<^verbatim>\<open>lex_t\<close>; a null \<^verbatim>\<open>string\<close> is \<open>None\<close>.\<close>

datatype lex_value = V_string "byte list option" | V_integer int | V_real double

text \<open>
  \<^verbatim>\<open>lex_t\<close>. \<^verbatim>\<open>saved_text\<close> is the \<^verbatim>\<open>strbuffer_t\<close>: its bytes, \<^verbatim>\<open>length\<close> of them,
  which \<^verbatim>\<open>strbuffer_value\<close> shows followed by a NUL.
\<close>

record lex_t =
  stream :: stream_t
  saved_text :: "byte list"
  token :: int
  lex_value :: lex_value

text \<open>
  Modelled from the spec: \<^verbatim>\<open>json_error_t\<close> is declared in jansson.h, which is not part
  of load.cpp. The spec's ErrorRecord: source name, line, column, absolute byte offset,
  and a message of bounded length. The fields carry the prefix \<open>err_\<close> here, as
  \<open>line\<close>, \<open>column\<close> and \<open>position\<close> are fields of the stream already.
\<close>

record json_error_t =
  err_line :: int
  err_column :: int
  err_position :: nat
  err_source :: "byte list"
  err_text :: "byte list"

text \<open>
  Modelled from the spec: the constant \<^verbatim>\<open>JSON_ERROR_TEXT_LENGTH\<close> of jansson.h, the
  size of the message arrays (the message has a bounded length).
\<close>

definition JSON_ERROR_TEXT_LENGTH :: nat where
  "JSON_ERROR_TEXT_LENGTH = 160"

section \<open>Error reporting\<close>

text \<open>
  Modelled from the spec: \<^verbatim>\<open>jsonp_error_init\<close> and \<^verbatim>\<open>jsonp_error_set\<close> are defined
  outside load.cpp. The spec: an error record starts with no error recorded; reporting is
  a no-op if an error is already recorded (first failure wins), and otherwise stores the
  position and the message, cut to the bounded length. An error is recorded when the
  message is not empty. A null \<^verbatim>\<open>error\<close> pointer is \<open>None\<close>.
\<close>

definition jsonp_error_init :: "bool \<Rightarrow> byte list \<Rightarrow> json_error_t option" where
  "jsonp_error_init present source =
     (if present
      then Some \<lparr>err_line = - 1, err_column = - 1, err_position = 0,
                 err_source = source, err_text = []\<rparr>
      else None)"

definition jsonp_error_set ::
  "json_error_t option \<Rightarrow> int \<Rightarrow> int \<Rightarrow> nat \<Rightarrow> byte list \<Rightarrow> json_error_t option" where
  "jsonp_error_set error ln col pos msg =
     (case error of
        None \<Rightarrow> None
      | Some e \<Rightarrow>
          if err_text e \<noteq> [] then Some e
          else Some (e\<lparr>err_line := ln, err_column := col, err_position := pos,
                       err_text := take (JSON_ERROR_TEXT_LENGTH - 1) msg\<rparr>))"

text \<open>\<^verbatim>\<open>vsnprintf\<close> and \<^verbatim>\<open>safe_snprintf\<close> into an array of \<^verbatim>\<open>JSON_ERROR_TEXT_LENGTH\<close>.\<close>

definition safe_snprintf :: "byte list \<Rightarrow> byte list" where
  "safe_snprintf s = take (JSON_ERROR_TEXT_LENGTH - 1) s"

text \<open>
  \<^verbatim>\<open>error_set\<close>. The caller has expanded the format: \<open>msg\<close> is the formatted text. A null
  \<^verbatim>\<open>lex\<close> is \<open>None\<close>. \<^verbatim>\<open>saved_text[0]\<close> reads the first byte of the saved text, or the
  closing NUL when there is none; \<^verbatim>\<open>%.*s\<close> prints at most \<^verbatim>\<open>context_length\<close> bytes and
  stops at a NUL.
\<close>

definition error_set ::
  "json_error_t option \<Rightarrow> lex_t option \<Rightarrow> byte list \<Rightarrow> json_error_t option" where
  "error_set error lx msg =
     (case error of
        None \<Rightarrow> None
      | Some _ \<Rightarrow>
          let msg_text = safe_snprintf msg in
          (case lx of
             Some l \<Rightarrow>
               let saved = saved_text l;
                   ln = line (stream l);
                   col = column (stream l);
                   pos = position (stream l)
               in if saved \<noteq> [] \<and> hd saved \<noteq> 0
                  then
                    let context_length = min 20 (length saved);
                        msg_with_context =
                          safe_snprintf (msg_text @ str '' near '' @ [0x27] @
                            takeWhile (\<lambda>b. b \<noteq> 0) (take context_length saved) @ [0x27])
                    in jsonp_error_set error ln col pos msg_with_context
                  else if state (stream l) = STREAM_STATE_ERROR
                  then jsonp_error_set error ln col pos msg_text
                  else jsonp_error_set error ln col pos
                         (safe_snprintf (msg_text @ str '' near end of file''))
           | None \<Rightarrow> jsonp_error_set error (- 1) (- 1) 0 msg_text))"

section \<open>The byte stream\<close>

text \<open>
  The read \<^verbatim>\<open>stream->buffer[i]\<close>. The source reads cells 0 to 4 only (lemma
  \<open>stream_wf_get\<close> and its companions: a NUL closes the buffered character inside the
  array); the model gives a read outside the array the value NUL, which ends every walk.
\<close>

definition buffer_at :: "stream_t \<Rightarrow> nat \<Rightarrow> byte" where
  "buffer_at s i = (if i < length (buffer s) then buffer s ! i else 0)"

definition stream_init :: "byte option list \<Rightarrow> stream_t" where
  "stream_init d =
     \<lparr>data = d, buffer = [0, 0, 0, 0, 0], buffer_pos = 0, state = STREAM_STATE_OK,
      line = 1, column = 0, last_column = 0, position = 0\<rparr>"

text \<open>One call of \<^verbatim>\<open>stream->get(stream->data)\<close>.\<close>

fun source_get :: "byte option list \<Rightarrow> int \<times> byte option list" where
  "source_get [] = (EOF, [])"
| "source_get (None # d) = (EOF, d)"
| "source_get (Some b # d) = (uint b, d)"

text \<open>The loop \<^verbatim>\<open>for(i = 1; i < count; i++) stream->buffer[i] = stream->get(stream->data)\<close>.\<close>

function stream_fill :: "nat \<Rightarrow> nat \<Rightarrow> stream_t \<Rightarrow> stream_t" where
  "stream_fill i count s =
     (if i < count
      then case source_get (data s) of
             (c, d) \<Rightarrow> stream_fill (i + 1) count (s\<lparr>data := d, buffer := (buffer s)[i := int_to_char c]\<rparr>)
      else s)"
  by pat_completeness auto
termination
  by (relation "measure (\<lambda>(i, count, s). count - i)") auto

declare stream_fill.simps [simp del]

text \<open>The label \<^verbatim>\<open>out\<close> of \<^verbatim>\<open>stream_get\<close>; \<open>c\<close> is the byte that was read first.\<close>

definition stream_get_out ::
  "lex_t \<Rightarrow> stream_t \<Rightarrow> int \<Rightarrow> json_error_t option \<Rightarrow> int \<times> lex_t \<times> json_error_t option" where
  "stream_get_out lx s c error =
     (let lx' = lx\<lparr>stream := s\<lparr>state := STREAM_STATE_ERROR\<rparr>\<rparr>
      in (C_ERROR, lx',
          error_set error (Some lx') (str ''unable to decode byte 0x'' @ fmt_x c)))"

text \<open>The end of \<^verbatim>\<open>stream_get\<close>, from \<^verbatim>\<open>c = stream->buffer[stream->buffer_pos++]\<close> on.\<close>

definition stream_get_next ::
  "lex_t \<Rightarrow> stream_t \<Rightarrow> json_error_t option \<Rightarrow> int \<times> lex_t \<times> json_error_t option" where
  "stream_get_next lx s error =
     (let c = char_to_int (buffer_at s (buffer_pos s));
          s1 = s\<lparr>buffer_pos := buffer_pos s + 1, position := position s + 1\<rparr>;
          s2 = (if c = ch CHR 0x0A
                then s1\<lparr>line := line s1 + 1, last_column := column s1, column := 0\<rparr>
                else if utf8_check_first (int_to_char c) \<noteq> 0
                then s1\<lparr>column := column s1 + 1\<rparr>
                else s1)
      in (c, lx\<lparr>stream := s2\<rparr>, error))"

text \<open>
  \<^verbatim>\<open>stream_get\<close>. The stream is a member of the \<^verbatim>\<open>lex_t\<close> (the source goes from one to
  the other with \<^verbatim>\<open>stream_to_lex\<close>), so the model takes the \<^verbatim>\<open>lex_t\<close> and works on its
  \<open>stream\<close>. \<^verbatim>\<open>assert(count >= 2)\<close> holds for every byte from 0x80 on that
  \<open>utf8_check_first\<close> accepts.
\<close>

definition stream_get ::
  "lex_t \<Rightarrow> json_error_t option \<Rightarrow> int \<times> lex_t \<times> json_error_t option" where
  "stream_get lx error =
     (let s = stream lx in
      if state s \<noteq> STREAM_STATE_OK then (state_code (state s), lx, error)
      else if buffer_at s (buffer_pos s) = 0
      then
        case source_get (data s) of
          (c, d) \<Rightarrow>
            if c = EOF
            then (C_EOF, lx\<lparr>stream := s\<lparr>data := d, state := STREAM_STATE_EOF\<rparr>\<rparr>, error)
            else
              let s1 = s\<lparr>data := d, buffer := (buffer s)[0 := int_to_char c], buffer_pos := 0\<rparr>
              in if 0x80 \<le> c \<and> c \<le> 0xFF
                 then
                   let count = utf8_check_first (int_to_char c)
                   in if count = 0 then stream_get_out lx s1 c error
                      else
                        let s2 = stream_fill 1 count s1
                        in if \<not> utf8_check_full (buffer s2) count
                           then stream_get_out lx s2 c error
                           else stream_get_next lx (s2\<lparr>buffer := (buffer s2)[count := 0]\<rparr>) error
                 else stream_get_next lx (s1\<lparr>buffer := (buffer s1)[1 := 0]\<rparr>) error
      else stream_get_next lx s error)"

text \<open>
  \<^verbatim>\<open>stream_unget\<close>. The two assertions are checked: \<open>None\<close> is the program stopped by a
  failed \<^verbatim>\<open>assert\<close>.
\<close>

definition stream_unget :: "stream_t \<Rightarrow> int \<Rightarrow> stream_t option" where
  "stream_unget s c =
     (if c = C_EOF \<or> c = C_ERROR then Some s
      else
        let s1 = s\<lparr>position := position s - 1\<rparr>;
            s2 = (if c = ch CHR 0x0A
                  then s1\<lparr>line := line s1 - 1, column := last_column s1\<rparr>
                  else if utf8_check_first (int_to_char c) \<noteq> 0
                  then s1\<lparr>column := column s1 - 1\<rparr>
                  else s1)
        in if \<not> buffer_pos s2 > 0 then None
           else
             let s3 = s2\<lparr>buffer_pos := buffer_pos s2 - 1\<rparr>
             in if char_to_int (buffer_at s3 (buffer_pos s3)) = c then Some s3 else None)"

section \<open>The lexer's access to the stream\<close>

definition lex_get ::
  "lex_t \<Rightarrow> json_error_t option \<Rightarrow> int \<times> lex_t \<times> json_error_t option" where
  "lex_get lx error = stream_get lx error"

definition lex_save :: "lex_t \<Rightarrow> int \<Rightarrow> lex_t" where
  "lex_save lx c = lx\<lparr>saved_text := saved_text lx @ [int_to_char c]\<rparr>"

definition lex_get_save ::
  "lex_t \<Rightarrow> json_error_t option \<Rightarrow> int \<times> lex_t \<times> json_error_t option" where
  "lex_get_save lx error =
     (case stream_get lx error of
        (c, lx1, error1) \<Rightarrow>
          if c \<noteq> C_EOF \<and> c \<noteq> C_ERROR
          then (c, lex_save lx1 c, error1)
          else (c, lx1, error1))"

definition lex_unget :: "lex_t \<Rightarrow> int \<Rightarrow> lex_t option" where
  "lex_unget lx c = map_option (\<lambda>s. lx\<lparr>stream := s\<rparr>) (stream_unget (stream lx) c)"

text \<open>
  \<^verbatim>\<open>lex_unget_unsave\<close>; \<^verbatim>\<open>strbuffer_pop\<close> takes the last byte of the saved text off
  and returns it, or NUL when there is none. \<^verbatim>\<open>assert(c == d)\<close> is checked.
\<close>

definition lex_unget_unsave :: "lex_t \<Rightarrow> int \<Rightarrow> lex_t option" where
  "lex_unget_unsave lx c =
     (if c \<noteq> C_EOF \<and> c \<noteq> C_ERROR
      then case stream_unget (stream lx) c of
             None \<Rightarrow> None
           | Some s \<Rightarrow>
               let d = (if saved_text lx = [] then 0 else last (saved_text lx))
               in if c = char_to_int d
                  then Some (lx\<lparr>stream := s, saved_text := butlast (saved_text lx)\<rparr>)
                  else None
      else Some lx)"

text \<open>
  \<^verbatim>\<open>lex_save_cached\<close>: the rest of the buffered character goes to the saved text.
\<close>

function lex_save_cached :: "lex_t \<Rightarrow> lex_t" where
  "lex_save_cached lx =
     (let s = stream lx in
      if buffer_at s (buffer_pos s) \<noteq> 0
      then lex_save_cached
             ((lex_save lx (char_to_int (buffer_at s (buffer_pos s))))
                \<lparr>stream := s\<lparr>buffer_pos := buffer_pos s + 1, position := position s + 1\<rparr>\<rparr>)
      else lx)"
  by pat_completeness auto
termination
  by (relation "measure (\<lambda>lx. length (buffer (stream lx)) - buffer_pos (stream lx))")
     (auto simp: lex_save_def buffer_at_def split: if_splits)

declare lex_save_cached.simps [simp del]

text \<open>\<^verbatim>\<open>lex_init\<close>; the union is not initialised, and nothing reads it before a scan.\<close>

definition lex_init :: "byte option list \<Rightarrow> lex_t" where
  "lex_init d =
     \<lparr>stream = stream_init d, saved_text = [], token = TOKEN_INVALID, lex_value = V_string None\<rparr>"

section \<open>Facts about the stream\<close>

lemma jsonp_error_set_recorded:
  "err_text e \<noteq> [] \<Longrightarrow> jsonp_error_set (Some e) ln col pos msg = Some e"
  by (simp add: jsonp_error_set_def)

lemma error_set_recorded:
  "err_text e \<noteq> [] \<Longrightarrow> error_set (Some e) lx msg = Some e"
  by (simp add: error_set_def jsonp_error_set_def Let_def split: option.splits)

lemma error_set_None: "error_set None lx msg = None"
  by (simp add: error_set_def)

text \<open>
  A measure for the loops of the lexer: a call of \<^verbatim>\<open>stream_get\<close> that returns a byte
  makes it smaller.
\<close>

definition stream_measure :: "stream_t \<Rightarrow> nat" where
  "stream_measure s = (length (buffer s) + 1) * length (data s) + (length (buffer s) - buffer_pos s)"

lemma source_get_length: "source_get d = (c, d') \<Longrightarrow> length d' \<le> length d"
  by (cases d rule: source_get.cases) auto

lemma source_get_length_lt: "source_get d = (c, d') \<Longrightarrow> c \<noteq> EOF \<Longrightarrow> length d' < length d"
  by (cases d rule: source_get.cases) auto

lemma stream_fill_props:
  "length (buffer (stream_fill i n s)) = length (buffer s) \<and>
   length (data (stream_fill i n s)) \<le> length (data s) \<and>
   buffer_pos (stream_fill i n s) = buffer_pos s \<and>
   state (stream_fill i n s) = state s \<and> line (stream_fill i n s) = line s \<and>
   column (stream_fill i n s) = column s \<and> position (stream_fill i n s) = position s
   \<and> last_column (stream_fill i n s) = last_column s"
proof (induction i n s rule: stream_fill.induct)
  case (1 i count s)
  show ?case
  proof (cases "i < count")
    case True
    obtain c d where cd: "source_get (data s) = (c, d)" by (cases "source_get (data s)")
    from "1" [OF True cd [symmetric]] True cd source_get_length [OF cd]
    show ?thesis by (subst (1 2 3 4 5 6 7 8) stream_fill.simps) (simp)
  next
    case False
    then show ?thesis by (simp add: stream_fill.simps)
  qed
qed


lemmas stream_fill_length [simp] = stream_fill_props [THEN conjunct1]


lemma stream_get_next_props:
  assumes "stream_get_next lx s e = (c, lx', e')"
  shows "e' = e" and "data (stream lx') = data s" and "buffer (stream lx') = buffer s"
    and "buffer_pos (stream lx') = buffer_pos s + 1" and "state (stream lx') = state s"
    and "position (stream lx') = position s + 1" and "saved_text lx' = saved_text lx"
    and "token lx' = token lx" and "lex_value lx' = lex_value lx"
    and "c = char_to_int (buffer_at s (buffer_pos s))"
  using assms by (auto simp: stream_get_next_def Let_def split: if_splits)

lemma stream_get_cases [consumes 1, case_names sticky eof err pending fresh]:
  assumes "stream_get lx e = (c, lx', e')"
  obtains
    (sticky) "state (stream lx) \<noteq> STREAM_STATE_OK" "c = state_code (state (stream lx))"
      "lx' = lx" "e' = e"
  | (eof) d where "state (stream lx) = STREAM_STATE_OK"
      "buffer_at (stream lx) (buffer_pos (stream lx)) = 0"
      "source_get (data (stream lx)) = (EOF, d)" "c = C_EOF"
      "lx' = lx\<lparr>stream := (stream lx)\<lparr>data := d, state := STREAM_STATE_EOF\<rparr>\<rparr>" "e' = e"
  | (err) s1 c0 d where "state (stream lx) = STREAM_STATE_OK"
      "buffer_at (stream lx) (buffer_pos (stream lx)) = 0"
      "source_get (data (stream lx)) = (c0, d)" "c0 \<noteq> EOF" "c = C_ERROR"
      "lx' = lx\<lparr>stream := s1\<lparr>state := STREAM_STATE_ERROR\<rparr>\<rparr>"
      "e' = error_set e (Some lx') (str ''unable to decode byte 0x'' @ fmt_x c0)"
      "length (data s1) \<le> length d" "length (buffer s1) = length (buffer (stream lx))"
      "line s1 = line (stream lx)" "column s1 = column (stream lx)"
      "position s1 = position (stream lx)" "buffer_pos s1 = 0"
  | (pending) "state (stream lx) = STREAM_STATE_OK"
      "buffer_at (stream lx) (buffer_pos (stream lx)) \<noteq> 0"
      "stream_get_next lx (stream lx) e = (c, lx', e')"
  | (fresh) s2 c0 d where "state (stream lx) = STREAM_STATE_OK"
      "buffer_at (stream lx) (buffer_pos (stream lx)) = 0"
      "source_get (data (stream lx)) = (c0, d)" "c0 \<noteq> EOF"
      "stream_get_next lx s2 e = (c, lx', e')"
      "state s2 = STREAM_STATE_OK" "buffer_pos s2 = 0"
      "length (data s2) \<le> length d" "length (buffer s2) = length (buffer (stream lx))"
      "line s2 = line (stream lx)" "column s2 = column (stream lx)"
      "position s2 = position (stream lx)" "last_column s2 = last_column (stream lx)"
proof (cases "state (stream lx) = STREAM_STATE_OK")
  case False
  with assms show ?thesis by (intro sticky) (auto simp: stream_get_def Let_def)
next
  case ok: True
  show ?thesis
  proof (cases "buffer_at (stream lx) (buffer_pos (stream lx)) = 0")
    case False
    with assms ok show ?thesis by (intro pending) (auto simp: stream_get_def Let_def)
  next
    case cell: True
    obtain c0 d where sg: "source_get (data (stream lx)) = (c0, d)"
      by (cases "source_get (data (stream lx))")
    show ?thesis
    proof (cases "c0 = EOF")
      case True
      with assms ok cell sg show ?thesis
        by (intro eof [of d]) (auto simp: stream_get_def Let_def)
    next
      case neof: False
      let ?s1 = "(stream lx)\<lparr>data := d, buffer := (buffer (stream lx))[0 := int_to_char c0], buffer_pos := 0\<rparr>"
      let ?n = "utf8_check_first (int_to_char c0)"
      let ?s2 = "stream_fill 1 ?n ?s1"
      note fp = stream_fill_props [of 1 ?n ?s1]
      show ?thesis
      proof (cases "0x80 \<le> c0 \<and> c0 \<le> 0xFF")
        case False
        with assms ok cell sg neof show ?thesis
          by (intro fresh [of c0 d "?s1\<lparr>buffer := (buffer ?s1)[1 := 0]\<rparr>"])
             (auto simp: stream_get_def Let_def)
      next
        case hi: True
        show ?thesis
        proof (cases "?n = 0")
          case True
          with assms ok cell sg neof hi show ?thesis
            by (intro err [of c0 d ?s1])
               (auto simp: stream_get_def Let_def stream_get_out_def)
        next
          case n0: False
          show ?thesis
          proof (cases "utf8_check_full (buffer ?s2) ?n")
            case False
            with assms ok cell sg neof hi n0 fp show ?thesis
              by (intro err [of c0 d ?s2])
                 (auto simp: stream_get_def Let_def stream_get_out_def)
          next
            case True
            with assms ok cell sg neof hi n0 fp show ?thesis
              by (intro fresh [of c0 d "?s2\<lparr>buffer := (buffer ?s2)[?n := 0]\<rparr>"])
                 (auto simp: stream_get_def Let_def)
          qed
        qed
      qed
    qed
  qed
qed



lemma stream_measure_data_lt:
  assumes "length (buffer s') = length (buffer s)" "length (data s') < length (data s)"
  shows "stream_measure s' < stream_measure s"
proof -
  let ?L = "length (buffer s)"
  have "(?L + 1) * length (data s') + (?L - buffer_pos s') < (?L + 1) * (length (data s') + 1)"
    by simp
  also have "\<dots> \<le> (?L + 1) * length (data s)"
    using assms(2) by (intro mult_le_mono2) simp
  also have "\<dots> \<le> (?L + 1) * length (data s) + (?L - buffer_pos s)" by simp
  finally show ?thesis using assms(1) unfolding stream_measure_def by simp
qed

lemma stream_measure_pos_le:
  assumes "length (buffer s') = length (buffer s)" "length (data s') \<le> length (data s)"
    "buffer_pos s \<le> buffer_pos s'"
  shows "stream_measure s' \<le> stream_measure s"
proof -
  let ?L = "length (buffer s)"
  have "(?L + 1) * length (data s') \<le> (?L + 1) * length (data s)"
    using assms(2) by (intro mult_le_mono2) 
  moreover have "?L - buffer_pos s' \<le> ?L - buffer_pos s" using assms(3) by simp
  ultimately show ?thesis using assms(1) unfolding stream_measure_def
    by (metis add_le_mono)
qed

lemma stream_measure_pos_lt:
  assumes "length (buffer s') = length (buffer s)" "length (data s') \<le> length (data s)"
    "buffer_pos s < buffer_pos s'" "buffer_pos s < length (buffer s)"
  shows "stream_measure s' < stream_measure s"
proof -
  let ?L = "length (buffer s)"
  have "(?L + 1) * length (data s') \<le> (?L + 1) * length (data s)"
    using assms(2) by (intro mult_le_mono2) 
  moreover have "?L - buffer_pos s' < ?L - buffer_pos s" using assms(3,4) by simp
  ultimately show ?thesis using assms(1) unfolding stream_measure_def
    by (metis add_le_less_mono)
qed

lemma stream_get_measure_le:
  assumes "stream_get lx e = (c, lx', e')"
  shows "stream_measure (stream lx') \<le> stream_measure (stream lx)"
  using assms
proof (cases rule: stream_get_cases)
  case sticky then show ?thesis by simp
next
  case (eof d)
  from source_get_length [OF eof(3)] eof show ?thesis
    by (intro stream_measure_pos_le) simp_all
next
  case (err s1 c0 d)
  from source_get_length_lt [OF err(3,4)] err show ?thesis
    by (intro less_imp_le stream_measure_data_lt) simp_all
next
  case pending
  from stream_get_next_props [OF pending(3)] show ?thesis
    by (intro stream_measure_pos_le) simp_all
next
  case (fresh s2 c0 d)
  from source_get_length_lt [OF fresh(3,4)] stream_get_next_props [OF fresh(5)] fresh
  show ?thesis
    by (intro less_imp_le stream_measure_data_lt) simp_all
qed

lemma stream_get_measure_lt:
  assumes "stream_get lx e = (c, lx', e')" "c \<noteq> C_EOF" "c \<noteq> C_ERROR"
  shows "stream_measure (stream lx') < stream_measure (stream lx)"
  using assms(1)
proof (cases rule: stream_get_cases)
  case sticky with assms show ?thesis by (cases "state (stream lx)") auto
next
  case (eof d)
  with assms show ?thesis by simp
next
  case (err s1 c0 d)
  with assms show ?thesis by simp
next
  case pending
  from stream_get_next_props [OF pending(3)] pending(2) show ?thesis
    by (intro stream_measure_pos_lt) (simp_all add: buffer_at_def split: if_splits)
next
  case (fresh s2 c0 d)
  from source_get_length_lt [OF fresh(3,4)] stream_get_next_props [OF fresh(5)] fresh
  show ?thesis
    by (intro stream_measure_data_lt) simp_all
qed


lemma length5E:
  assumes "length xs = 5"
  obtains a b c d e where "xs = [a, b, c, d, e]"
  using assms by (auto simp: length_Suc_conv eval_nat_numeral)

lemma utf8_check_first_range: "utf8_check_first b \<in> {0, 1, 2, 3, 4}"
  by (simp add: utf8_check_first_def Let_def)

lemma utf8_check_first_lead:
  "utf8_check_first b \<ge> 2 \<Longrightarrow> b \<noteq> 0xFE \<and> b \<noteq> 0xFF \<and> b \<noteq> 0 \<and> b \<noteq> 10"
  by (auto simp: utf8_check_first_def Let_def split: if_splits)

lemma utf8_check_first_ascii: "uint b < 0x80 \<Longrightarrow> utf8_check_first b = 1"
  by (simp add: utf8_check_first_def)

lemma utf8_check_first_high: "0x80 \<le> uint b \<Longrightarrow> utf8_check_first b \<noteq> 1"
  by (simp add: utf8_check_first_def Let_def)

lemma uint_byte_le: "uint (b :: byte) \<le> 255"
  using uint_lt2p [of b] by simp

lemma source_get_range: "source_get d = (c, d') \<Longrightarrow> c \<noteq> EOF \<Longrightarrow> 0 \<le> c \<and> c \<le> 0xFF \<and> (\<exists>b. c = uint b \<and> int_to_char c = b)"
  by (cases d rule: source_get.cases) (auto simp: int_to_char_def uint_byte_le)

definition is_cont :: "byte \<Rightarrow> bool" where
  "is_cont b = (0x80 \<le> uint b \<and> uint b \<le> 0xBF)"

lemma is_cont_props:
  "is_cont b \<Longrightarrow> utf8_check_first b = 0 \<and> b \<noteq> 0 \<and> b \<noteq> 10 \<and> b \<noteq> 0xFE \<and> b \<noteq> 0xFF"
  by (auto simp: is_cont_def utf8_check_first_def)

lemma utf8_check_full_2c: "utf8_check_full [a, x1, c, d, e] 2 \<Longrightarrow> is_cont x1"
  by (auto simp: utf8_check_full_def is_cont_def Let_def split: option.splits if_splits)

lemma utf8_check_full_3c: "utf8_check_full [a, x1, x2, d, e] 3 \<Longrightarrow> is_cont x1 \<and> is_cont x2"
  by (auto simp: utf8_check_full_def is_cont_def Let_def split: option.splits if_splits)

lemma utf8_check_full_4c:
  "utf8_check_full [a, x1, x2, x3, e] 4 \<Longrightarrow> is_cont x1 \<and> is_cont x2 \<and> is_cont x3"
  by (auto simp: utf8_check_full_def is_cont_def Let_def split: option.splits if_splits)

lemma is_cont_not_eof: "is_cont (int_to_char (- 1)) = False" "is_cont (- 1) = False"
  by (simp_all add: is_cont_def int_to_char_def unsigned_minus_1_eq_mask mask_eq_exp_minus_1)

lemma source_get_cont:
  "source_get d = (c, d') \<Longrightarrow> is_cont (int_to_char c) \<Longrightarrow> d = Some (int_to_char c) # d'"
  by (cases d rule: source_get.cases) (auto simp: is_cont_not_eof int_to_char_def)

lemma stream_get_fresh:
  assumes "stream_get lx e = (c, lx', e')" "state (stream lx) = STREAM_STATE_OK"
    "state (stream lx') = STREAM_STATE_OK"
    "buffer_at (stream lx) (buffer_pos (stream lx)) = 0" "length (buffer (stream lx)) = 5"
  shows "\<exists>n. n = utf8_check_first (buffer (stream lx') ! 0) \<and> 1 \<le> n \<and> n \<le> 4 \<and>
           buffer_pos (stream lx') = 1 \<and> buffer (stream lx') ! n = 0 \<and>
           length (buffer (stream lx')) = 5 \<and>
           list_all is_cont (take (n - 1) (drop 1 (buffer (stream lx')))) \<and>
           data (stream lx) = map Some (take n (buffer (stream lx'))) @ data (stream lx') \<and>
           c = char_to_int (buffer (stream lx') ! 0) \<and> e' = e"
proof -
  from assms(5) obtain q0 q1 q2 q3 q4 where buf: "buffer (stream lx) = [q0, q1, q2, q3, q4]"
    by (rule length5E)
  obtain c0 dd where sg: "source_get (data (stream lx)) = (c0, dd)"
    by (cases "source_get (data (stream lx))")
  from assms(1-4) sg have neof: "c0 \<noteq> EOF"
    by (auto simp: stream_get_def Let_def)
  from source_get_range [OF sg neof] obtain b0 where b0: "c0 = uint b0" "int_to_char c0 = b0"
     and c0r: "0 \<le> c0" "c0 \<le> 0xFF"
    by auto
  from sg neof b0 have dat: "data (stream lx) = Some b0 # dd"
    by (cases "data (stream lx)" rule: source_get.cases)
       (auto simp: int_to_char_def dest: word_uint_eqI)
  have out_state: "\<And>s cc. state (stream (fst (snd (stream_get_out lx s cc e)))) = STREAM_STATE_ERROR"
    by (simp add: stream_get_out_def Let_def)
  show ?thesis
  proof (cases "0x80 \<le> c0")
    case False
    then have n1: "utf8_check_first b0 = 1" using b0 by (intro utf8_check_first_ascii) simp
    have "\<exists>s2. stream_get lx e = stream_get_next lx s2 e \<and> data s2 = dd \<and>
        buffer s2 = [b0, 0, q2, q3, q4] \<and> buffer_pos s2 = 0"
      using assms(2,4) sg neof False buf b0
      apply (simp add: stream_get_def Let_def)
      apply (rule exI, rule conjI, rule refl)
      apply simp
      done
    then obtain s2 where eq: "stream_get lx e = stream_get_next lx s2 e" and s2: "data s2 = dd"
        "buffer s2 = [b0, 0, q2, q3, q4]" "buffer_pos s2 = 0"
      by blast
    from eq assms(1) have eq': "stream_get_next lx s2 e = (c, lx', e')" by simp
    from stream_get_next_props [OF eq'] n1 dat s2
    show ?thesis by (simp add: buffer_at_def)
  next
    case True
    let ?n = "utf8_check_first b0"
    let ?s1 = "(stream lx)\<lparr>data := dd, buffer := [b0, q1, q2, q3, q4], buffer_pos := 0\<rparr>"
    let ?s2 = "stream_fill 1 ?n ?s1"
    have eq0: "stream_get lx e = (if ?n = 0 then stream_get_out lx ?s1 c0 e
        else if \<not> utf8_check_full (buffer ?s2) ?n then stream_get_out lx ?s2 c0 e
        else stream_get_next lx (?s2\<lparr>buffer := (buffer ?s2)[?n := 0]\<rparr>) e)"
      using assms(2,4) sg neof True c0r buf b0 by (simp add: stream_get_def Let_def)
    from eq0 assms(1,3) out_state have n0: "?n \<noteq> 0"
      by (metis fst_conv snd_conv stream_state.distinct(3))
    from eq0 assms(1,3) out_state n0 have chk: "utf8_check_full (buffer ?s2) ?n"
      by (metis fst_conv snd_conv stream_state.distinct(3))
    from eq0 n0 chk assms(1)
    have eq: "stream_get_next lx (?s2\<lparr>buffer := (buffer ?s2)[?n := 0]\<rparr>) e = (c, lx', e')"
      by simp
    note np = stream_get_next_props [OF eq]
    from True b0 have "?n \<noteq> 1" by (intro utf8_check_first_high) simp
    with n0 utf8_check_first_range [of b0] consider "?n = 2" | "?n = 3" | "?n = 4" by auto
    then show ?thesis
    proof cases
      case 1
      obtain c1 d1 where g1: "source_get dd = (c1, d1)" by (cases "source_get dd")
      have fill: "stream_fill 1 2 ?s1
        = (stream lx)\<lparr>data := d1, buffer := [b0, int_to_char c1, q2, q3, q4], buffer_pos := 0\<rparr>"
        by (simp add: stream_fill.simps g1)
      from chk have full: "utf8_check_full [b0, int_to_char c1, q2, q3, q4] 2"
        unfolding 1 fill by simp
      note k1 = utf8_check_full_2c [OF full]
      note e1 = source_get_cont [OF g1 k1]
      from np show ?thesis unfolding 1 fill using 1 k1 e1 dat
        by (simp add: buffer_at_def)
    next
      case 2
      obtain c1 d1 where g1: "source_get dd = (c1, d1)" by (cases "source_get dd")
      obtain c2 d2 where g2: "source_get d1 = (c2, d2)" by (cases "source_get d1")
      have fill: "stream_fill 1 3 ?s1
        = (stream lx)\<lparr>data := d2, buffer := [b0, int_to_char c1, int_to_char c2, q3, q4], buffer_pos := 0\<rparr>"
        by (simp add: stream_fill.simps g1 g2)
      from chk have full: "utf8_check_full [b0, int_to_char c1, int_to_char c2, q3, q4] 3"
        unfolding 2 fill by simp
      note k = utf8_check_full_3c [OF full]
      note e1 = source_get_cont [OF g1 k [THEN conjunct1]]
      note e2 = source_get_cont [OF g2 k [THEN conjunct2]]
      from np show ?thesis unfolding 2 fill using 2 k e1 e2 dat
        by (simp add: buffer_at_def)
    next
      case 3
      obtain c1 d1 where g1: "source_get dd = (c1, d1)" by (cases "source_get dd")
      obtain c2 d2 where g2: "source_get d1 = (c2, d2)" by (cases "source_get d1")
      obtain c3 d3 where g3: "source_get d2 = (c3, d3)" by (cases "source_get d2")
      have fill: "stream_fill 1 4 ?s1
        = (stream lx)\<lparr>data := d3, buffer := [b0, int_to_char c1, int_to_char c2, int_to_char c3, q4], buffer_pos := 0\<rparr>"
        by (simp add: stream_fill.simps g1 g2 g3)
      from chk have full: "utf8_check_full [b0, int_to_char c1, int_to_char c2, int_to_char c3, q4] 4"
        unfolding 3 fill by simp
      note k = utf8_check_full_4c [OF full]
      note e1 = source_get_cont [OF g1 k [THEN conjunct1]]
      note e2 = source_get_cont [OF g2 k [THEN conjunct2, THEN conjunct1]]
      note e3 = source_get_cont [OF g3 k [THEN conjunct2, THEN conjunct2]]
      from np show ?thesis unfolding 3 fill using 3 k e1 e2 e3 dat
        by (simp add: buffer_at_def)
    qed
  qed
qed


text \<open>
  The well-formed streams: the buffer has its five cells, and while the stream can be read
  a NUL closes the buffered character at or after the cursor, with no byte 0xFE or 0xFF
  (which \<^verbatim>\<open>char\<close> would turn into the sentinels -2 and -1) before it.
  \<^verbatim>\<open>stream_init\<close> gives such a stream and every operation keeps it so.
\<close>

definition stream_wf :: "stream_t \<Rightarrow> bool" where
  "stream_wf s =
     (length (buffer s) = 5 \<and>
      (state s = STREAM_STATE_OK \<longrightarrow>
         (\<exists>k<5. buffer_pos s \<le> k \<and> buffer s ! k = 0 \<and>
            (\<forall>i. buffer_pos s \<le> i \<and> i < k \<longrightarrow> buffer s ! i \<noteq> 0xFE \<and> buffer s ! i \<noteq> 0xFF))))"

lemma stream_init_wf: "stream_wf (stream_init d)"
  by (auto simp: stream_wf_def stream_init_def intro!: exI [of _ 0])

lemma stream_get_next_wf:
  assumes "stream_get_next lx s e = (c, lx', e')" "stream_wf s" "state s = STREAM_STATE_OK"
    "buffer_at s (buffer_pos s) \<noteq> 0"
  shows "stream_wf (stream lx')"
proof -
  from assms(2,3) obtain k where k: "k < 5" "buffer_pos s \<le> k" "buffer s ! k = 0"
      "\<forall>i. buffer_pos s \<le> i \<and> i < k \<longrightarrow> buffer s ! i \<noteq> 0xFE \<and> buffer s ! i \<noteq> 0xFF"
    and len: "length (buffer s) = 5"
    by (auto simp: stream_wf_def)
  from k assms(4) len have "buffer_pos s \<noteq> k" by (auto simp: buffer_at_def)
  with k have "buffer_pos s + 1 \<le> k" by simp
  with k len stream_get_next_props [OF assms(1)] assms(3) show ?thesis
    unfolding stream_wf_def by (intro conjI impI exI [of _ k]) auto
qed

lemma list_all_take_drop_nth:
  assumes "list_all P (take (n - 1) (drop 1 xs))" "1 \<le> i" "i < n" "i < length xs"
  shows "P (xs ! i)"
proof -
  from assms(2-4) have "i - 1 < length (take (n - 1) (drop 1 xs))" by (simp, arith)
  with assms(1) have "P (take (n - 1) (drop 1 xs) ! (i - 1))" by (simp add: list_all_length)
  with assms show ?thesis by simp
qed

lemma stream_get_wf:
  assumes "stream_get lx e = (c, lx', e')" "stream_wf (stream lx)"
  shows "stream_wf (stream lx')"
  using assms(1)
proof (cases rule: stream_get_cases)
  case sticky with assms show ?thesis by simp
next
  case (eof d) with assms show ?thesis by (simp add: stream_wf_def)
next
  case (err s1 c0 d) with assms show ?thesis by (simp add: stream_wf_def)
next
  case pending
  from stream_get_next_wf [OF pending(3) assms(2) pending(1,2)] show ?thesis .
next
  case (fresh s2 c0 d)
  from assms(2) have len: "length (buffer (stream lx)) = 5" by (simp add: stream_wf_def)
  from stream_get_next_props [OF fresh(5)] fresh have ok': "state (stream lx') = STREAM_STATE_OK"
    by simp
  from stream_get_fresh [OF assms(1) fresh(1) ok' fresh(2) len]
  obtain n where n: "1 \<le> n" "n \<le> 4" "buffer_pos (stream lx') = 1" "buffer (stream lx') ! n = 0"
    "length (buffer (stream lx')) = 5"
    "list_all is_cont (take (n - 1) (drop 1 (buffer (stream lx'))))"
    by blast
  have "\<forall>i. 1 \<le> i \<and> i < n \<longrightarrow> buffer (stream lx') ! i \<noteq> 0xFE \<and> buffer (stream lx') ! i \<noteq> 0xFF"
  proof (intro allI impI)
    fix i assume i: "1 \<le> i \<and> i < n"
    with n have "is_cont (buffer (stream lx') ! i)"
      by (intro list_all_take_drop_nth [where n = n and P = is_cont and xs = "buffer (stream lx')"]) auto
    then show "buffer (stream lx') ! i \<noteq> 0xFE \<and> buffer (stream lx') ! i \<noteq> 0xFF"
      using is_cont_props by blast
  qed
  with n show ?thesis unfolding stream_wf_def
    by (intro conjI impI exI [of _ n]) auto
qed

lemma char_to_int_range: "- 128 \<le> char_to_int b \<and> char_to_int b \<le> 127"
  using uint_byte_le [of b] uint_nonnegative [of b] unfolding char_to_int_def
  by (cases "uint b < 0x80") (simp_all only: if_True if_False, linarith+)

lemma uint_char_to_int: "uint b = (if char_to_int b < 0 then char_to_int b + 256 else char_to_int b)"
proof (cases "uint b < 0x80")
  case True
  then have "char_to_int b = uint b" by (simp add: char_to_int_def)
  then show ?thesis by simp
next
  case False
  then have "char_to_int b = uint b - 256" by (simp add: char_to_int_def)
  with uint_byte_le [of b] show ?thesis by simp
qed

lemma char_to_int_inj: "char_to_int a = char_to_int b \<Longrightarrow> a = b"
  by (rule word_uint_eqI) (simp add: uint_char_to_int)

lemma int_to_char_char_to_int [simp]: "int_to_char (char_to_int b) = b"
  by (simp add: char_to_int_def int_to_char_def)

lemma char_to_int_sentinel:
  "char_to_int b = - 1 \<longleftrightarrow> b = 0xFF" "char_to_int b = - 2 \<longleftrightarrow> b = 0xFE"
proof -
  have m1: "char_to_int (0xFF :: byte) = - 1" and m2: "char_to_int (0xFE :: byte) = - 2"
    by (simp_all add: char_to_int_def)
  show "char_to_int b = - 1 \<longleftrightarrow> b = 0xFF"
    using char_to_int_inj [of b "0xFF"] m1 by auto
  show "char_to_int b = - 2 \<longleftrightarrow> b = 0xFE"
    using char_to_int_inj [of b "0xFE"] m2 by auto
qed

lemma stream_unget_wf:
  assumes "stream_unget s c = Some s'" "stream_wf s"
  shows "stream_wf s'"
proof (cases "c = C_EOF \<or> c = C_ERROR")
  case True with assms show ?thesis by (simp add: stream_unget_def)
next
  case False
  with assms(1) have p: "buffer_pos s > 0" "buffer_pos s' = buffer_pos s - 1" "buffer s' = buffer s"
    "state s' = state s" "char_to_int (buffer_at s' (buffer_pos s')) = c"
    by (auto simp: stream_unget_def Let_def split: if_splits)
  show ?thesis
  proof (cases "state s = STREAM_STATE_OK")
    case False with assms(2) p show ?thesis by (simp add: stream_wf_def)
  next
    case True
    with assms(2) obtain k where k: "k < 5" "buffer_pos s \<le> k" "buffer s ! k = 0"
      "\<forall>i. buffer_pos s \<le> i \<and> i < k \<longrightarrow> buffer s ! i \<noteq> 0xFE \<and> buffer s ! i \<noteq> 0xFF"
      and len: "length (buffer s) = 5"
      by (auto simp: stream_wf_def)
    from p False len k have b: "buffer s ! (buffer_pos s - 1) \<noteq> 0xFE \<and> buffer s ! (buffer_pos s - 1) \<noteq> 0xFF"
      by (auto simp: buffer_at_def char_to_int_sentinel split: if_splits)
    have "\<forall>i. buffer_pos s - 1 \<le> i \<and> i < k \<longrightarrow> buffer s ! i \<noteq> 0xFE \<and> buffer s ! i \<noteq> 0xFF"
    proof (intro allI impI)
      fix i assume i: "buffer_pos s - 1 \<le> i \<and> i < k"
      show "buffer s ! i \<noteq> 0xFE \<and> buffer s ! i \<noteq> 0xFF"
      proof (cases "i = buffer_pos s - 1")
        case True with b show ?thesis by simp
      next
        case False with i k p show ?thesis by auto
      qed
    qed
    with k p len True show ?thesis unfolding stream_wf_def
      by (intro conjI impI exI [of _ k]) auto
  qed
qed

lemma lex_save_cached_props:
  "state (stream (lex_save_cached lx)) = state (stream lx) \<and>
   data (stream (lex_save_cached lx)) = data (stream lx) \<and>
   buffer (stream (lex_save_cached lx)) = buffer (stream lx) \<and>
   line (stream (lex_save_cached lx)) = line (stream lx) \<and>
   column (stream (lex_save_cached lx)) = column (stream lx) \<and>
   buffer_pos (stream lx) \<le> buffer_pos (stream (lex_save_cached lx)) \<and>
   token (lex_save_cached lx) = token lx \<and> lex_value (lex_save_cached lx) = lex_value lx"
proof (induction lx rule: lex_save_cached.induct)
  case (1 lx)
  show ?case
  proof (cases "buffer_at (stream lx) (buffer_pos (stream lx)) \<noteq> 0")
    case True
    from "1" [OF refl True] True show ?thesis
      by (subst (1 2 3 4 5 6 7 8) lex_save_cached.simps) (simp add: Let_def lex_save_def)
  next
    case False
    then show ?thesis by (subst (1 2 3 4 5 6 7 8) lex_save_cached.simps) (simp add: Let_def)
  qed
qed

section \<open>The claims on the stream and on error reporting\<close>

text \<open>
  A sequence of calls on the stream, as the lexer makes them: \<^verbatim>\<open>stream_get\<close>,
  \<^verbatim>\<open>stream_unget\<close> of a value, \<^verbatim>\<open>lex_save_cached\<close>. \<open>stream_calls\<close> runs them in
  turn and collects what the \<^verbatim>\<open>stream_get\<close>s return.
\<close>

datatype stream_call = Call_get | Call_unget int | Call_save_cached

fun stream_calls ::
  "stream_call list \<Rightarrow> lex_t \<Rightarrow> json_error_t option \<Rightarrow>
     (int list \<times> lex_t \<times> json_error_t option) option" where
  "stream_calls [] lx e = Some ([], lx, e)"
| "stream_calls (Call_get # ops) lx e =
     (case stream_get lx e of
        (c, lx1, e1) \<Rightarrow> map_option (\<lambda>(cs, r). (c # cs, r)) (stream_calls ops lx1 e1))"
| "stream_calls (Call_unget c # ops) lx e =
     (case lex_unget lx c of None \<Rightarrow> None | Some lx1 \<Rightarrow> stream_calls ops lx1 e)"
| "stream_calls (Call_save_cached # ops) lx e = stream_calls ops (lex_save_cached lx) e"

lemma stream_unget_props:
  "stream_unget s c = Some s' \<Longrightarrow> state s' = state s \<and> data s' = data s \<and> buffer s' = buffer s"
  by (auto simp: stream_unget_def Let_def split: if_splits)

lemma stream_calls_sticky:
  assumes "state (stream lx) \<noteq> STREAM_STATE_OK" "stream_calls ops lx e = Some (cs, lx', e')"
  shows "state (stream lx') = state (stream lx) \<and> data (stream lx') = data (stream lx) \<and> e' = e \<and>
         cs = replicate (length (filter (\<lambda>x. x = Call_get) ops)) (state_code (state (stream lx)))"
  using assms
proof (induction ops arbitrary: lx cs)
  case Nil
  then show ?case by simp
next
  case (Cons x ops)
  show ?case
  proof (cases x)
    case Call_get
    from Cons.prems(1) have g: "stream_get lx e = (state_code (state (stream lx)), lx, e)"
      by (simp add: stream_get_def Let_def)
    from Cons.prems(2) Call_get g obtain cs1 where
      cs1: "stream_calls ops lx e = Some (cs1, lx', e')" "cs = state_code (state (stream lx)) # cs1"
      by auto
    from Cons.IH [OF Cons.prems(1) cs1(1)] cs1(2) Call_get show ?thesis by simp
  next
    case (Call_unget c)
    with Cons.prems(2) obtain lx1 where u: "lex_unget lx c = Some lx1"
      and r: "stream_calls ops lx1 e = Some (cs, lx', e')"
      by (auto split: option.splits)
    from u obtain s1 where s1: "stream_unget (stream lx) c = Some s1" "lx1 = lx\<lparr>stream := s1\<rparr>"
      by (auto simp: lex_unget_def)
    from stream_unget_props [OF s1(1)] s1(2) Cons.prems(1)
    have st: "state (stream lx1) = state (stream lx)" "data (stream lx1) = data (stream lx)"
      by simp_all
    from Cons.IH [of lx1 cs] r st Cons.prems(1) Call_unget show ?thesis by simp
  next
    case Call_save_cached
    with Cons.prems(2) have r: "stream_calls ops (lex_save_cached lx) e = Some (cs, lx', e')"
      by simp
    from lex_save_cached_props [of lx]
    have st: "state (stream (lex_save_cached lx)) = state (stream lx)"
        "data (stream (lex_save_cached lx)) = data (stream lx)"
      by simp_all
    from Cons.IH [of "lex_save_cached lx" cs] r st Cons.prems(1) Call_save_cached
    show ?thesis by simp
  qed
qed

text \<open>
  Claim C6. The status of the stream is sticky: once \<^verbatim>\<open>stream_get\<close> has left the
  stream in the state Eof or Error, it has returned that state's sentinel, and whatever
  calls follow, the state stays what it is, every later \<^verbatim>\<open>stream_get\<close> returns the
  same sentinel, and the byte source and the error record are not touched.
\<close>

theorem stream_state_sticky:
  assumes "stream_get lx0 e0 = (c, lx, e)" and "state (stream lx) \<noteq> STREAM_STATE_OK"
    and "stream_calls ops lx e = Some (cs, lx', e')"
  shows "c = state_code (state (stream lx)) \<and> (c = C_EOF \<or> c = C_ERROR) \<and>
         state (stream lx') = state (stream lx) \<and> data (stream lx') = data (stream lx) \<and>
         e' = e \<and> cs = replicate (length (filter (\<lambda>x. x = Call_get) ops)) c"
proof -
  from assms(1) have c: "c = state_code (state (stream lx))"
  proof (cases rule: stream_get_cases)
    case pending
    from stream_get_next_props [OF pending(3)] pending(1) assms(2) show ?thesis by simp
  next
    case (fresh s2 c0 d)
    from stream_get_next_props [OF fresh(5)] fresh(6) assms(2) show ?thesis by simp
  qed simp_all
  moreover from c assms(2) have "c = C_EOF \<or> c = C_ERROR"
    by (cases "state (stream lx)") simp_all
  ultimately show ?thesis using stream_calls_sticky [OF assms(2,3)] by simp
qed

lemma stream_get_next_unget:
  assumes "stream_get_next lx s e = (c, lx', e')"
    and "buffer_at s (buffer_pos s) \<noteq> 0xFF" "buffer_at s (buffer_pos s) \<noteq> 0xFE"
  shows "position (stream lx') = position s + 1 \<and>
         (if c = ch CHR 0x0A
          then line (stream lx') = line s + 1 \<and> last_column (stream lx') = column s \<and>
               column (stream lx') = 0
          else line (stream lx') = line s \<and>
               column (stream lx') = column s + (if utf8_check_first (int_to_char c) \<noteq> 0 then 1 else 0)) \<and>
         (\<exists>s'. stream_unget (stream lx') c = Some s' \<and> line s' = line s \<and> column s' = column s \<and>
               position s' = position s \<and> buffer_pos s' = buffer_pos s)"
proof -
  define b where "b = buffer_at s (buffer_pos s)"
  define c0 where "c0 = char_to_int b"
  from assms(2,3) have ns: "c0 \<noteq> - 1" "c0 \<noteq> - 2"
    by (simp_all add: char_to_int_sentinel c0_def b_def)
  have rt: "int_to_char c0 = b" by (simp add: c0_def)
  have lx': "lx' = fst (snd (stream_get_next lx s e))" and c: "c = fst (stream_get_next lx s e)"
    using assms(1) by simp_all
  have c': "c = c0" unfolding c by (simp add: stream_get_next_def Let_def c0_def b_def)
  have bat: "\<And>s1. buffer s1 = buffer s \<Longrightarrow> buffer_at s1 (buffer_pos s) = b"
    by (simp add: buffer_at_def b_def)
  have st: "stream lx' =
    (if c0 = 10
     then s\<lparr>buffer_pos := buffer_pos s + 1, position := position s + 1,
        line := line s + 1, last_column := column s, column := 0\<rparr>
     else if utf8_check_first b \<noteq> 0
     then s\<lparr>buffer_pos := buffer_pos s + 1, position := position s + 1, column := column s + 1\<rparr>
     else s\<lparr>buffer_pos := buffer_pos s + 1, position := position s + 1\<rparr>)"
    unfolding lx' by (simp add: stream_get_next_def Let_def c0_def [symmetric] b_def [symmetric] rt)
  show ?thesis
  proof (cases "c0 = 10")
    case True
    show ?thesis unfolding c' st using True ns
      by (simp add: stream_unget_def Let_def bat c0_def [symmetric])
  next
    case False
    show ?thesis
    proof (cases "utf8_check_first b \<noteq> 0")
      case u: True
      show ?thesis unfolding c' st using False ns u
        by (simp add: stream_unget_def Let_def bat c0_def [symmetric] rt)
    next
      case u: False
      show ?thesis unfolding c' st using False ns u
        by (simp add: stream_unget_def Let_def bat c0_def [symmetric] rt)
    qed
  qed
qed

lemma utf8_check_first_not_sentinel: "utf8_check_first b \<noteq> 0 \<Longrightarrow> b \<noteq> 0xFF \<and> b \<noteq> 0xFE"
  by (auto simp: utf8_check_first_def)

text \<open>
  Claim C7. On a well-formed stream, a \<^verbatim>\<open>stream_get\<close> that returns a byte adds one to
  the byte offset; on a newline it adds one to the line, saves the column and sets it to
  0; otherwise it adds one to the column exactly when the byte starts a character
  (\<open>utf8_check_first\<close> is not 0), so the continuation bytes of a multi-byte character
  leave the column alone. A call that returns a sentinel changes none of the three.
  \<^verbatim>\<open>stream_unget\<close> of the value just returned passes its assertions and gives back
  the line, column and offset from before the \<^verbatim>\<open>stream_get\<close>.
\<close>

theorem stream_position_tracking:
  assumes "stream_wf (stream lx)" and "stream_get lx e = (c, lx', e')"
  shows "(if state (stream lx') = STREAM_STATE_OK
          then position (stream lx') = position (stream lx) + 1 \<and>
               (if c = ch CHR 0x0A
                then line (stream lx') = line (stream lx) + 1 \<and>
                     last_column (stream lx') = column (stream lx) \<and> column (stream lx') = 0
                else line (stream lx') = line (stream lx) \<and>
                     column (stream lx') =
                       column (stream lx) + (if utf8_check_first (int_to_char c) \<noteq> 0 then 1 else 0))
          else position (stream lx') = position (stream lx) \<and> line (stream lx') = line (stream lx) \<and>
               column (stream lx') = column (stream lx)) \<and>
         (\<exists>s'. stream_unget (stream lx') c = Some s' \<and> line s' = line (stream lx) \<and>
               column s' = column (stream lx) \<and> position s' = position (stream lx))"
  using assms(2)
proof (cases rule: stream_get_cases)
  case sticky
  then show ?thesis by (cases "state (stream lx)") (simp_all add: stream_unget_def)
next
  case (eof d)
  then show ?thesis by (simp add: stream_unget_def)
next
  case (err s1 c0 d)
  then show ?thesis by (simp add: stream_unget_def)
next
  case pending
  from assms(1) pending(1) obtain k where k: "k < 5" "buffer_pos (stream lx) \<le> k"
      "buffer (stream lx) ! k = 0"
      "\<forall>i. buffer_pos (stream lx) \<le> i \<and> i < k \<longrightarrow>
          buffer (stream lx) ! i \<noteq> 0xFE \<and> buffer (stream lx) ! i \<noteq> 0xFF"
    and len: "length (buffer (stream lx)) = 5"
    by (auto simp: stream_wf_def)
  from k pending(2) len have "buffer_pos (stream lx) \<noteq> k" by (auto simp: buffer_at_def)
  with k len have ns: "buffer_at (stream lx) (buffer_pos (stream lx)) \<noteq> 0xFF"
      "buffer_at (stream lx) (buffer_pos (stream lx)) \<noteq> 0xFE"
    by (auto simp: buffer_at_def)
  from stream_get_next_props [OF pending(3)] pending(1)
  have "state (stream lx') = STREAM_STATE_OK" by simp
  with stream_get_next_unget [OF pending(3) ns] show ?thesis by auto
next
  case (fresh s2 c0 d)
  from assms(1) have len: "length (buffer (stream lx)) = 5" by (simp add: stream_wf_def)
  note np = stream_get_next_props [OF fresh(5)]
  from np fresh have ok': "state (stream lx') = STREAM_STATE_OK" by simp
  from stream_get_fresh [OF assms(2) fresh(1) ok' fresh(2) len]
  have "utf8_check_first (buffer (stream lx') ! 0) \<noteq> 0" by auto
  with np fresh len have "utf8_check_first (buffer_at s2 (buffer_pos s2)) \<noteq> 0"
    by (simp add: buffer_at_def)
  from utf8_check_first_not_sentinel [OF this]
  have ns: "buffer_at s2 (buffer_pos s2) \<noteq> 0xFF" "buffer_at s2 (buffer_pos s2) \<noteq> 0xFE"
    by simp_all
  from stream_get_next_unget [OF fresh(5) ns] ok' fresh show ?thesis by auto
qed

text \<open>
  Claim C8. First failure wins: a report with a message that is not empty leaves an
  error recorded, and every later call of \<^verbatim>\<open>error_set\<close>, whatever it reports, leaves
  the record as that first report made it.
\<close>

theorem error_set_first_failure_wins:
  assumes "msg \<noteq> []"
  shows "err_text (the (error_set (Some e) lx msg)) \<noteq> [] \<and>
         foldl (\<lambda>err (l, m). error_set err l m) (error_set (Some e) lx msg) reports
           = error_set (Some e) lx msg"
proof -
  have rec: "\<exists>e1. error_set (Some e) lx msg = Some e1 \<and> err_text e1 \<noteq> []"
    using assms
    by (cases lx)
       (auto simp: error_set_def jsonp_error_set_def Let_def safe_snprintf_def
          JSON_ERROR_TEXT_LENGTH_def)
  then obtain e1 where e1: "error_set (Some e) lx msg = Some e1" "err_text e1 \<noteq> []" by blast
  have "foldl (\<lambda>err (l, m). error_set err l m) (Some e1) reports = Some e1"
    by (induction reports) (auto simp: error_set_recorded [OF e1(2)])
  with e1 show ?thesis by simp
qed

lemmas stream_eval = stream_get_def lex_init_def stream_init_def buffer_at_def Let_def
  utf8_check_first_def int_to_char_def stream_fill.simps utf8_check_full_def
  stream_get_next_def char_to_int_def stream_get_out_def stream_unget_def

text \<open>
  What \<^verbatim>\<open>error_set\<close> stores when no error is recorded yet: the position of the stream,
  and the message, cut to the length of the arrays, with the context the code chooses.
\<close>

lemma error_set_text:
  assumes "err_text e = []"
  shows "error_set (Some e) (Some lx) msg =
     Some (e\<lparr>err_line := line (stream lx), err_column := column (stream lx),
              err_position := position (stream lx),
              err_text :=
                take 159
                  (if saved_text lx \<noteq> [] \<and> hd (saved_text lx) \<noteq> 0
                   then take 159 msg @ str '' near '' @ [0x27] @
                        takeWhile (\<lambda>b. b \<noteq> 0) (take 20 (saved_text lx)) @ [0x27]
                   else if state (stream lx) = STREAM_STATE_ERROR then take 159 msg
                   else take 159 msg @ str '' near end of file'')\<rparr>)"
proof -
  have m: "take (min 20 (length (saved_text lx))) (saved_text lx) = take 20 (saved_text lx)"
    by (simp add: min_def)
  from assms show ?thesis
    by (simp add: error_set_def jsonp_error_set_def Let_def safe_snprintf_def
        JSON_ERROR_TEXT_LENGTH_def m del: take_append)
qed

theorem error_set_first_failure_wins_witness:
  "foldl (\<lambda>err (l, m). error_set err l m)
     (error_set (Some \<lparr>err_line = - 1, err_column = - 1, err_position = 0, err_source = [], err_text = []\<rparr>)
        None (str ''first''))
     [(None, str ''second''), (Some (lex_init []), str ''third'')]
   = Some \<lparr>err_line = - 1, err_column = - 1, err_position = 0, err_source = [], err_text = str ''first''\<rparr>"
proof -
  have h: "str ''first'' \<noteq> []" by (simp add: str_def)
  from error_set_first_failure_wins [OF h] show ?thesis
    by (simp add: error_set_def jsonp_error_set_def Let_def safe_snprintf_def
        JSON_ERROR_TEXT_LENGTH_def str_def)
qed

theorem stream_position_tracking_witness:
  "stream_wf (stream (lex_init [Some 0xC3, Some 0xA9])) \<and>
   (case stream_get (lex_init [Some 0xC3, Some 0xA9]) None of
      (c, lx', e') \<Rightarrow>
        c = - 61 \<and> position (stream lx') = 1 \<and> column (stream lx') = 1 \<and> line (stream lx') = 1 \<and>
        (\<exists>s'. stream_unget (stream lx') c = Some s' \<and> line s' = 1 \<and> column s' = 0 \<and>
           position s' = 0))"
proof -
  have wf: "stream_wf (stream (lex_init [Some 0xC3, Some 0xA9]))"
    by (simp add: lex_init_def stream_init_wf)
  obtain c lx' e' where g: "stream_get (lex_init [Some 0xC3, Some 0xA9]) None = (c, lx', e')"
    by (cases "stream_get (lex_init [Some 0xC3, Some 0xA9]) None")
  have v: "c = - 61" "state (stream lx') = STREAM_STATE_OK"
    using g by (auto simp: stream_eval)
  have i: "position (stream (lex_init [Some 0xC3, Some 0xA9])) = 0"
    "column (stream (lex_init [Some 0xC3, Some 0xA9])) = 0"
    "line (stream (lex_init [Some 0xC3, Some 0xA9])) = 1"
    by (simp_all add: lex_init_def stream_init_def)
  from stream_position_tracking [OF wf g] v i wf g show ?thesis
    by (simp add: utf8_check_first_def int_to_char_def)
qed

theorem stream_state_sticky_witness:
  "(case stream_get (lex_init [Some 0xFF, Some 0x41]) None of
      (c, lx, e) \<Rightarrow>
        c = C_ERROR \<and> state (stream lx) = STREAM_STATE_ERROR \<and>
        (case stream_calls [Call_get, Call_save_cached, Call_get] lx e of
           Some (cs, lx', e') \<Rightarrow>
             cs = [C_ERROR, C_ERROR] \<and> state (stream lx') = STREAM_STATE_ERROR \<and>
             data (stream lx') = [Some 0x41]
         | None \<Rightarrow> False))"
proof -
  obtain c lx e where g: "stream_get (lex_init [Some 0xFF, Some 0x41]) None = (c, lx, e)"
    by (cases "stream_get (lex_init [Some 0xFF, Some 0x41]) None")
  have v: "state (stream lx) = STREAM_STATE_ERROR" "data (stream lx) = [Some 0x41]"
    using g by (auto simp: stream_eval)
  then have n: "state (stream lx) \<noteq> STREAM_STATE_OK" by simp
  obtain cs lx' e' where r: "stream_calls [Call_get, Call_save_cached, Call_get] lx e = Some (cs, lx', e')"
    using v lex_save_cached_props [of lx]
    by (cases "stream_calls [Call_get, Call_save_cached, Call_get] lx e")
       (auto simp: stream_get_def Let_def)
  from stream_state_sticky [OF g n r] v g r show ?thesis
    by simp
qed

section \<open>The lexer\<close>

subsection \<open>Measure of the lexer's calls\<close>

lemma lex_get_save_measure_le:
  "lex_get_save lx e = (c, lx', e') \<Longrightarrow> stream_measure (stream lx') \<le> stream_measure (stream lx)"
  by (auto simp: lex_get_save_def lex_save_def split: prod.splits if_splits
      dest: stream_get_measure_le)

lemma lex_get_save_measure_lt:
  "lex_get_save lx e = (c, lx', e') \<Longrightarrow> c \<noteq> C_EOF \<Longrightarrow> c \<noteq> C_ERROR \<Longrightarrow>
     stream_measure (stream lx') < stream_measure (stream lx)"
  by (auto simp: lex_get_save_def lex_save_def split: prod.splits if_splits
      dest: stream_get_measure_lt)

lemma lex_get_measure_lt:
  "lex_get lx e = (c, lx', e') \<Longrightarrow> c \<noteq> C_EOF \<Longrightarrow> c \<noteq> C_ERROR \<Longrightarrow>
     stream_measure (stream lx') < stream_measure (stream lx)"
  by (auto simp: lex_get_def dest: stream_get_measure_lt)

lemma l_isdigit_not_sentinel: "l_isdigit c \<Longrightarrow> c \<noteq> C_EOF \<and> c \<noteq> C_ERROR"
  by (auto simp: l_isdigit_def)

lemma l_isalpha_not_sentinel: "l_isalpha c \<Longrightarrow> c \<noteq> C_EOF \<and> c \<noteq> C_ERROR"
  by (auto simp: l_isalpha_def l_isupper_def l_islower_def)

text \<open>The measure of a loop that goes on while the character read last is a byte.\<close>

definition loop_measure :: "int \<Rightarrow> lex_t \<Rightarrow> nat" where
  "loop_measure c lx = (if c = C_EOF \<or> c = C_ERROR then 0 else stream_measure (stream lx) + 1)"

lemma loop_measure_get_save:
  "lex_get_save lx e = (c', lx', e') \<Longrightarrow> c \<noteq> C_EOF \<Longrightarrow> c \<noteq> C_ERROR \<Longrightarrow>
     loop_measure c' lx' < loop_measure c lx"
  using lex_get_save_measure_lt [of lx e c' lx' e']
  by (auto simp: loop_measure_def)

lemma loop_measure_get:
  "lex_get lx e = (c', lx', e') \<Longrightarrow> c \<noteq> C_EOF \<Longrightarrow> c \<noteq> C_ERROR \<Longrightarrow>
     loop_measure c' lx' < loop_measure c lx"
  using lex_get_measure_lt [of lx e c' lx' e']
  by (auto simp: loop_measure_def)

lemma loop_measure_get_save_case:
  "c \<noteq> C_EOF \<Longrightarrow> c \<noteq> C_ERROR \<Longrightarrow>
     (case lex_get_save lx e of (c', lx', e') \<Rightarrow> loop_measure c' lx') < loop_measure c lx"
  by (cases "lex_get_save lx e") (auto dest: loop_measure_get_save)

lemma loop_measure_get_case:
  "c \<noteq> C_EOF \<Longrightarrow> c \<noteq> C_ERROR \<Longrightarrow>
     (case lex_get lx e of (c', lx', e') \<Rightarrow> loop_measure c' lx') < loop_measure c lx"
  by (cases "lex_get lx e") (auto dest: loop_measure_get)

subsection \<open>The loops of the scanner\<close>

text \<open>\<^verbatim>\<open>while(l_isdigit(c)) c = lex_get_save(lex, error);\<close>\<close>

function lex_digits ::
  "int \<Rightarrow> lex_t \<Rightarrow> json_error_t option \<Rightarrow> int \<times> lex_t \<times> json_error_t option" where
  "lex_digits c lx error =
     (if l_isdigit c
      then (case lex_get_save lx error of (c1, lx1, error1) \<Rightarrow> lex_digits c1 lx1 error1)
      else (c, lx, error))"
  by pat_completeness auto
termination
  by (relation "measure (\<lambda>(c, lx, e). loop_measure c lx)")
     (auto intro!: loop_measure_get_save_case dest: l_isdigit_not_sentinel)

declare lex_digits.simps [simp del]

text \<open>\<^verbatim>\<open>while(l_isalpha(c)) c = lex_get_save(lex, error);\<close>\<close>

function lex_alphas ::
  "int \<Rightarrow> lex_t \<Rightarrow> json_error_t option \<Rightarrow> int \<times> lex_t \<times> json_error_t option" where
  "lex_alphas c lx error =
     (if l_isalpha c
      then (case lex_get_save lx error of (c1, lx1, error1) \<Rightarrow> lex_alphas c1 lx1 error1)
      else (c, lx, error))"
  by pat_completeness auto
termination
  by (relation "measure (\<lambda>(c, lx, e). loop_measure c lx)")
     (auto intro!: loop_measure_get_save_case dest: l_isalpha_not_sentinel)

declare lex_alphas.simps [simp del]

text \<open>\<^verbatim>\<open>while(c == ' ' || c == '\t' || c == '\n' || c == '\r') c = lex_get(lex, error);\<close>\<close>

function lex_skip_space ::
  "int \<Rightarrow> lex_t \<Rightarrow> json_error_t option \<Rightarrow> int \<times> lex_t \<times> json_error_t option" where
  "lex_skip_space c lx error =
     (if c = ch CHR '' '' \<or> c = ch CHR 0x09 \<or> c = ch CHR 0x0A \<or> c = ch CHR 0x0D
      then (case lex_get lx error of (c1, lx1, error1) \<Rightarrow> lex_skip_space c1 lx1 error1)
      else (c, lx, error))"
  by pat_completeness auto
termination
  by (relation "measure (\<lambda>(c, lx, e). loop_measure c lx)")
     (auto intro!: loop_measure_get_case)

declare lex_skip_space.simps [simp del]


subsection \<open>String literals\<close>

text \<open>
  The character \<^verbatim>\<open>p[i]\<close> of a C string that holds the bytes \<open>p\<close>: the NUL that closes
  it when \<open>i\<close> is its length. No walk below reads further than that NUL.
\<close>

definition cstr_at :: "byte list \<Rightarrow> nat \<Rightarrow> byte" where
  "cstr_at p i = (if i < length p then p ! i else 0)"

text \<open>
  \<^verbatim>\<open>decode_unicode_escape\<close>. The assertions are checked: \<open>None\<close> is the program stopped
  by a failed \<^verbatim>\<open>assert\<close>. The loop runs \<open>i\<close> from 1 to 4.
\<close>

function decode_unicode_escape_loop :: "nat \<Rightarrow> byte list \<Rightarrow> int \<Rightarrow> int option" where
  "decode_unicode_escape_loop i s v =
     (if i \<le> 4
      then
        let c = char_to_int (cstr_at s i);
            v1 = v * 16
        in if l_isdigit c then decode_unicode_escape_loop (i + 1) s (v1 + (c - ch CHR ''0''))
           else if l_islower c
           then decode_unicode_escape_loop (i + 1) s (v1 + (c - ch CHR ''a'' + 10))
           else if l_isupper c
           then decode_unicode_escape_loop (i + 1) s (v1 + (c - ch CHR ''A'' + 10))
           else None
      else Some v)"
  by pat_completeness auto
termination
  by (relation "measure (\<lambda>(i, s, v). 5 - i)") auto

declare decode_unicode_escape_loop.simps [simp del]

definition decode_unicode_escape :: "byte list \<Rightarrow> int option" where
  "decode_unicode_escape s =
     (if char_to_int (cstr_at s 0) \<noteq> ch CHR ''u'' then None
      else decode_unicode_escape_loop 1 s 0)"

text \<open>The \<^verbatim>\<open>switch\<close> over the short escapes; its \<^verbatim>\<open>default\<close> is \<^verbatim>\<open>assert(0)\<close>.\<close>

definition short_escape :: "byte \<Rightarrow> byte option" where
  "short_escape b =
     (if b = 0x22 \<or> b = 0x5C \<or> b = of_char CHR ''/'' then Some b
      else if b = of_char CHR ''b'' then Some 0x08
      else if b = of_char CHR ''f'' then Some 0x0C
      else if b = of_char CHR ''n'' then Some 0x0A
      else if b = of_char CHR ''r'' then Some 0x0D
      else if b = of_char CHR ''t'' then Some 0x09
      else None)"

text \<open>The messages of the second pass.\<close>

definition msg_invalid_unicode :: "int \<Rightarrow> byte list" where
  "msg_invalid_unicode v = str ''invalid Unicode '' @ [0x27, 0x5C] @ str ''u'' @ fmt_04X v @ [0x27]"

definition msg_invalid_unicode2 :: "int \<Rightarrow> int \<Rightarrow> byte list" where
  "msg_invalid_unicode2 v v2 =
     str ''invalid Unicode '' @ [0x27, 0x5C] @ str ''u'' @ fmt_04X v @ [0x5C] @ str ''u'' @
     fmt_04X v2 @ [0x27]"

definition msg_u0000 :: "byte list" where
  "msg_u0000 = [0x5C] @ str ''u0000 is not allowed''"

text \<open>
  The second pass of \<^verbatim>\<open>lex_scan_string\<close>: the loop \<^verbatim>\<open>while(*p != '"')\<close> over the saved
  text, \<open>p\<close> the text from the cursor on and \<open>t\<close> the bytes written so far. The result is
  \<open>Some (Inr t)\<close> when the loop ends, \<open>Some (Inl msg)\<close> when it leaves with
  \<^verbatim>\<open>error_set(error, lex, msg)\<close> and \<^verbatim>\<open>goto out\<close>, and \<open>None\<close> when an assertion fails (or
  the walk would leave the text, which the first pass excludes). 0x22 is the double quote
  and 0x5C the backslash.
\<close>

function decode_string :: "byte list \<Rightarrow> byte list \<Rightarrow> (byte list + byte list) option" where
  "decode_string p t =
     (if p = [] then None
      else if hd p = 0x22 then Some (Inr t)
      else if hd p = 0x5C
      then
        (let p1 = tl p
         in if cstr_at p1 0 = of_char CHR ''u''
            then
              (case decode_unicode_escape p1 of
                 None \<Rightarrow> None
               | Some v \<Rightarrow>
                   (let p2 = drop 5 p1
                    in if 0xD800 \<le> v \<and> v \<le> 0xDBFF
                       then
                         (if cstr_at p2 0 = 0x5C \<and> cstr_at p2 1 = of_char CHR ''u''
                          then
                            (case decode_unicode_escape (drop 1 p2) of
                               None \<Rightarrow> None
                             | Some v2 \<Rightarrow>
                                 (if 0xDC00 \<le> v2 \<and> v2 \<le> 0xDFFF
                                  then
                                    (case utf8_encode
                                            ((v - 0xD800) * 1024 + (v2 - 0xDC00) + 0x10000) of
                                       None \<Rightarrow> None
                                     | Some bs \<Rightarrow> decode_string (drop 5 (drop 1 p2)) (t @ bs))
                                  else Some (Inl (msg_invalid_unicode2 v v2))))
                          else Some (Inl (msg_invalid_unicode v)))
                       else if 0xDC00 \<le> v \<and> v \<le> 0xDFFF then Some (Inl (msg_invalid_unicode v))
                       else if v = 0 then Some (Inl msg_u0000)
                       else
                         (case utf8_encode v of
                            None \<Rightarrow> None
                          | Some bs \<Rightarrow> decode_string p2 (t @ bs))))
            else
              (case short_escape (cstr_at p1 0) of
                 None \<Rightarrow> None
               | Some x \<Rightarrow> decode_string (tl p1) (t @ [x])))
      else decode_string (tl p) (t @ [hd p]))"
  by pat_completeness auto
termination
  by (relation "measure (\<lambda>(p, t). length p)") auto

declare decode_string.simps [simp del]

text \<open>
  The loop \<^verbatim>\<open>for(i = 0; i < 4; i++)\<close> of the first pass, entered with the character after
  the \<^verbatim>\<open>u\<close>; \<open>False\<close> in the result is the \<^verbatim>\<open>goto out\<close>.
\<close>

function lex_scan_xdigits ::
  "nat \<Rightarrow> int \<Rightarrow> lex_t \<Rightarrow> json_error_t option \<Rightarrow> bool \<times> int \<times> lex_t \<times> json_error_t option" where
  "lex_scan_xdigits i c lx error =
     (if i < 4
      then
        if \<not> l_isxdigit c
        then (False, c, lx, error_set error (Some lx) (str ''invalid escape''))
        else (case lex_get_save lx error of
                (c1, lx1, error1) \<Rightarrow> lex_scan_xdigits (i + 1) c1 lx1 error1)
      else (True, c, lx, error))"
  by pat_completeness auto
termination
  by (relation "measure (\<lambda>(i, c, lx, e). 4 - i)") auto

declare lex_scan_xdigits.simps [simp del]

text \<open>
  One turn of the loop \<^verbatim>\<open>while(c != '"')\<close> of the first pass, for a \<open>c\<close> that is not the
  double quote: it leaves for \<^verbatim>\<open>out\<close>, or goes on with the next character, or is stopped
  by an assertion of \<^verbatim>\<open>lex_unget_unsave\<close>.
\<close>

datatype string_step =
    String_out lex_t "json_error_t option"
  | String_next int lex_t "json_error_t option"
  | String_abort

definition lex_scan_string_step :: "int \<Rightarrow> lex_t \<Rightarrow> json_error_t option \<Rightarrow> string_step" where
  "lex_scan_string_step c lx error =
     (if c = C_ERROR then String_out lx error
      else if c = C_EOF
      then String_out lx (error_set error (Some lx) (str ''premature end of input''))
      else if 0 \<le> c \<and> c \<le> 0x1F
      then
        (case lex_unget_unsave lx c of
           None \<Rightarrow> String_abort
         | Some lx1 \<Rightarrow>
             (if c = ch CHR 0x0A
              then String_out lx1 (error_set error (Some lx1) (str ''unexpected newline''))
              else String_out lx1
                     (error_set error (Some lx1) (str ''control character 0x'' @ fmt_x c))))
      else if c = ch CHR 0x5C
      then
        (case lex_get_save lx error of
           (c1, lx1, error1) \<Rightarrow>
             (if c1 = ch CHR ''u''
              then
                (case lex_get_save lx1 error1 of
                   (c2, lx2, error2) \<Rightarrow>
                     (case lex_scan_xdigits 0 c2 lx2 error2 of
                        (ok, c3, lx3, error3) \<Rightarrow>
                          (if ok then String_next c3 lx3 error3 else String_out lx3 error3)))
              else if c1 = ch CHR 0x22 \<or> c1 = ch CHR 0x5C \<or> c1 = ch CHR ''/'' \<or>
                      c1 = ch CHR ''b'' \<or> c1 = ch CHR ''f'' \<or> c1 = ch CHR ''n'' \<or>
                      c1 = ch CHR ''r'' \<or> c1 = ch CHR ''t''
              then
                (case lex_get_save lx1 error1 of
                   (c2, lx2, error2) \<Rightarrow> String_next c2 lx2 error2)
              else String_out lx1 (error_set error1 (Some lx1) (str ''invalid escape''))))
      else
        (case lex_get_save lx error of
           (c1, lx1, error1) \<Rightarrow> String_next c1 lx1 error1))"

lemma lex_scan_xdigits_measure:
  "lex_scan_xdigits i c lx e = (ok, c', lx', e') \<Longrightarrow>
     stream_measure (stream lx') \<le> stream_measure (stream lx) \<and>
     (ok \<and> i < 4 \<and> c' \<noteq> C_EOF \<and> c' \<noteq> C_ERROR \<longrightarrow>
        stream_measure (stream lx') < stream_measure (stream lx))"
proof (induction i c lx e rule: lex_scan_xdigits.induct)
  case (1 i c lx error)
  show ?case
  proof (cases "i < 4 \<and> l_isxdigit c")
    case False
    with "1.prems" show ?thesis by (auto simp: lex_scan_xdigits.simps split: if_splits)
  next
    case True
    obtain c1 lx1 e1 where g: "lex_get_save lx error = (c1, lx1, e1)"
      by (cases "lex_get_save lx error")
    from True g "1.prems" have r: "lex_scan_xdigits (i + 1) c1 lx1 e1 = (ok, c', lx', e')"
      by (simp add: lex_scan_xdigits.simps [of i])
    from True have "i < 4" "\<not> \<not> l_isxdigit c" by simp_all
    note ih = "1.IH" [OF this g [symmetric] refl r]
    note le = lex_get_save_measure_le [OF g]
    show ?thesis
    proof (cases "i + 1 < 4")
      case True
      with ih le show ?thesis by auto
    next
      case False
      then have "lex_scan_xdigits (i + 1) c1 lx1 e1 = (True, c1, lx1, e1)"
        by (subst lex_scan_xdigits.simps) simp
      with r have "c' = c1" "lx' = lx1" by simp_all
      with lex_get_save_measure_lt [OF g] le show ?thesis by auto
    qed
  qed
qed

lemma lex_scan_string_step_measure:
  assumes "lex_scan_string_step c lx e = String_next c' lx' e'"
  shows "loop_measure c' lx' < loop_measure c lx"
proof -
  from assms have ns: "c \<noteq> C_EOF" "c \<noteq> C_ERROR"
    by (auto simp: lex_scan_string_step_def split: if_splits)
  have "c' \<noteq> C_EOF \<and> c' \<noteq> C_ERROR \<longrightarrow> stream_measure (stream lx') < stream_measure (stream lx)"
  proof (cases "c = ch CHR 0x5C")
    case False
    with assms ns show ?thesis
      by (auto simp: lex_scan_string_step_def split: if_splits option.splits prod.splits
          dest: lex_get_save_measure_lt)
  next
    case True
    obtain c1 lx1 e1 where g1: "lex_get_save lx e = (c1, lx1, e1)"
      by (cases "lex_get_save lx e")
    obtain c2 lx2 e2 where g2: "lex_get_save lx1 e1 = (c2, lx2, e2)"
      by (cases "lex_get_save lx1 e1")
    note le1 = lex_get_save_measure_le [OF g1]
    show ?thesis
    proof (cases "c1 = ch CHR ''u''")
      case u: True
      obtain ok c3 lx3 e3 where x: "lex_scan_xdigits 0 c2 lx2 e2 = (ok, c3, lx3, e3)"
        by (cases "lex_scan_xdigits 0 c2 lx2 e2")
      from assms True u g1 g2 x have "ok" "c' = c3" "lx' = lx3"
        by (auto simp: lex_scan_string_step_def split: if_splits)
      with lex_scan_xdigits_measure [OF x] lex_get_save_measure_le [OF g2] le1
      show ?thesis by auto
    next
      case False
      with assms True g1 g2 have "c' = c2" "lx' = lx2"
        by (auto simp: lex_scan_string_step_def split: if_splits)
      with lex_get_save_measure_lt [OF g2] le1 show ?thesis by auto
    qed
  qed
  with ns show ?thesis by (auto simp: loop_measure_def)
qed

text \<open>The first pass: \<open>True\<close> when the closing quote was read, \<open>False\<close> for \<^verbatim>\<open>goto out\<close>.\<close>

function lex_scan_string_loop ::
  "int \<Rightarrow> lex_t \<Rightarrow> json_error_t option \<Rightarrow> (bool \<times> lex_t \<times> json_error_t option) option" where
  "lex_scan_string_loop c lx error =
     (if c = ch CHR 0x22 then Some (True, lx, error)
      else (case lex_scan_string_step c lx error of
              String_abort \<Rightarrow> None
            | String_out lx1 error1 \<Rightarrow> Some (False, lx1, error1)
            | String_next c1 lx1 error1 \<Rightarrow> lex_scan_string_loop c1 lx1 error1))"
  by pat_completeness auto
termination
  by (relation "measure (\<lambda>(c, lx, e). loop_measure c lx)")
     (auto dest: lex_scan_string_step_measure)

declare lex_scan_string_loop.simps [simp del]

text \<open>
  \<^verbatim>\<open>lex_scan_string\<close>. \<^verbatim>\<open>jsonp_malloc\<close> gives memory. At \<^verbatim>\<open>out\<close> the string is freed:
  the union holds no string then.
\<close>

definition lex_scan_string ::
  "lex_t \<Rightarrow> json_error_t option \<Rightarrow> (lex_t \<times> json_error_t option) option" where
  "lex_scan_string lx error =
     (let lx0 = lx\<lparr>lex_value := V_string None, token := TOKEN_INVALID\<rparr>
      in (case lex_get_save lx0 error of
            (c, lx1, error1) \<Rightarrow>
              (case lex_scan_string_loop c lx1 error1 of
                 None \<Rightarrow> None
               | Some (False, lx2, error2) \<Rightarrow> Some (lx2, error2)
               | Some (True, lx2, error2) \<Rightarrow>
                   (case decode_string (drop 1 (saved_text lx2)) [] of
                      None \<Rightarrow> None
                    | Some (Inl msg) \<Rightarrow>
                        Some (lx2\<lparr>lex_value := V_string None\<rparr>, error_set error2 (Some lx2) msg)
                    | Some (Inr t) \<Rightarrow>
                        Some (lx2\<lparr>lex_value := V_string (Some t), token := TOKEN_STRING\<rparr>,
                              error2)))))"

subsection \<open>Number literals\<close>

text \<open>
  \<^verbatim>\<open>json_strtoint\<close> is \<^verbatim>\<open>strtoll\<close> in base 10 (\<^verbatim>\<open>json_int_t\<close> has 64 bits), called on the
  saved text, an optional minus sign and digits: the value, cut to the range of the type,
  and whether \<^verbatim>\<open>errno\<close> is \<^verbatim>\<open>ERANGE\<close>.
\<close>

definition is_digit_byte :: "byte \<Rightarrow> bool" where
  "is_digit_byte b = (0x30 \<le> uint b \<and> uint b \<le> 0x39)"

definition digits_value :: "byte list \<Rightarrow> int" where
  "digits_value ds = foldl (\<lambda>a d. a * 10 + (uint d - 0x30)) 0 ds"

definition LLONG_MAX :: int where "LLONG_MAX = 2 ^ 63 - 1"
definition LLONG_MIN :: int where "LLONG_MIN = - (2 ^ 63)"

definition json_strtoint :: "byte list \<Rightarrow> int \<times> bool" where
  "json_strtoint s =
     (let neg = (s \<noteq> [] \<and> hd s = of_char CHR ''-'');
          ds = takeWhile is_digit_byte (if neg then tl s else s);
          v = (if neg then - digits_value ds else digits_value ds)
      in if v > LLONG_MAX then (LLONG_MAX, True)
         else if v < LLONG_MIN then (LLONG_MIN, True)
         else (v, False))"

text \<open>
  Modelled from the spec: \<^verbatim>\<open>jsonp_strtod\<close> is defined outside load.cpp. The spec: the
  text is converted by a correctly rounded decimal to binary floating point routine, and a
  result that overflows to infinity is rejected.

  \<open>strtod_decimal\<close> reads the text: its sign, and \<open>m\<close> and \<open>x\<close> with \<open>m * 10 ^ x\<close> the decimal
  number written. \<open>strtod_round\<close> gives the double nearest to \<open>m * 10 ^ x\<close>, the one with
  the even significand when two are as near, and \<open>None\<close> when that is infinity: with \<open>e\<close>
  the binary exponent of the number, the doubles around it are the multiples of \<open>2 ^ q\<close>
  for \<open>q = max e (- 1022) - 52\<close>.
\<close>

definition strtod_decimal :: "byte list \<Rightarrow> bool \<times> int \<times> int" where
  "strtod_decimal s =
     (let neg = (s \<noteq> [] \<and> hd s = of_char CHR ''-'');
          s1 = (if neg then tl s else s);
          ip = takeWhile is_digit_byte s1;
          r1 = dropWhile is_digit_byte s1;
          has_frac = (r1 \<noteq> [] \<and> hd r1 = of_char CHR ''.'');
          fp = (if has_frac then takeWhile is_digit_byte (tl r1) else []);
          r2 = (if has_frac then dropWhile is_digit_byte (tl r1) else r1);
          has_exp = (r2 \<noteq> [] \<and> (hd r2 = of_char CHR ''e'' \<or> hd r2 = of_char CHR ''E''));
          r3 = (if has_exp then tl r2 else []);
          eneg = (r3 \<noteq> [] \<and> hd r3 = of_char CHR ''-'');
          r4 = (if r3 \<noteq> [] \<and> (hd r3 = of_char CHR ''+'' \<or> hd r3 = of_char CHR ''-'')
                then tl r3 else r3);
          ex = digits_value (takeWhile is_digit_byte r4);
          m = digits_value (ip @ fp)
      in (neg, m, (if eneg then - ex else ex) - int (length fp)))"

text \<open>The number of binary digits of a positive integer.\<close>

function bit_length :: "int \<Rightarrow> nat" where
  "bit_length n = (if n \<le> 0 then 0 else Suc (bit_length (n div 2)))"
  by pat_completeness auto
termination
  by (relation "measure nat") auto

declare bit_length.simps [simp del]

text \<open>The quotient \<open>num / den\<close> rounded to the nearest integer, to the even one at a tie.\<close>

definition round_half_even :: "int \<Rightarrow> int \<Rightarrow> int" where
  "round_half_even num den =
     (let fl = num div den;
          r = num mod den
      in if 2 * r < den then fl
         else if den < 2 * r then fl + 1
         else if even fl then fl
         else fl + 1)"

definition strtod_round :: "int \<Rightarrow> int \<Rightarrow> (int \<times> int) option" where
  "strtod_round m x =
     (if m = 0 then Some (0, - 1074)
      else
        let num = (if 0 \<le> x then m * 10 ^ nat x else m);
            den = (if 0 \<le> x then 1 else 10 ^ nat (- x));
            l = int (bit_length num) - int (bit_length den);
            e = (if (if 0 \<le> l then den * 2 ^ nat l \<le> num else den \<le> num * 2 ^ nat (- l))
                 then l else l - 1);
            q = max e (- 1022) - 52;
            n = (if 0 \<le> q then round_half_even num (den * 2 ^ nat q)
                 else round_half_even (num * 2 ^ nat (- q)) den)
        in if n = 2 ^ 53
           then (if 971 < q + 1 then None else Some (2 ^ 52, q + 1))
           else (if 971 < q then None else Some (n, q)))"

definition jsonp_strtod :: "byte list \<Rightarrow> double option" where
  "jsonp_strtod s =
     (case strtod_decimal s of
        (neg, m, x) \<Rightarrow>
          (case strtod_round m x of
             None \<Rightarrow> None
           | Some (n, q) \<Rightarrow> Some (Double neg n q)))"

text \<open>
  The fraction of a number (\<^verbatim>\<open>if(c == '.') { ... }\<close>): \<open>False\<close> in the result is the
  \<^verbatim>\<open>goto out\<close>, \<open>None\<close> an assertion of \<^verbatim>\<open>lex_unget\<close> that failed.
\<close>

definition lex_scan_fraction ::
  "int \<Rightarrow> lex_t \<Rightarrow> json_error_t option \<Rightarrow> (bool \<times> int \<times> lex_t \<times> json_error_t option) option" where
  "lex_scan_fraction c lx error =
     (if c = ch CHR ''.''
      then
        (case lex_get lx error of
           (c1, lx1, error1) \<Rightarrow>
             (if \<not> l_isdigit c1
              then map_option (\<lambda>l. (False, c1, l, error1)) (lex_unget lx1 c1)
              else
                (case lex_get_save (lex_save lx1 c1) error1 of
                   (c2, lx2, error2) \<Rightarrow>
                     (case lex_digits c2 lx2 error2 of
                        (c3, lx3, error3) \<Rightarrow> Some (True, c3, lx3, error3)))))
      else Some (True, c, lx, error))"

text \<open>The exponent of a number (\<^verbatim>\<open>if(c == 'E' || c == 'e') { ... }\<close>).\<close>

definition lex_scan_exponent ::
  "int \<Rightarrow> lex_t \<Rightarrow> json_error_t option \<Rightarrow> (bool \<times> int \<times> lex_t \<times> json_error_t option) option" where
  "lex_scan_exponent c lx error =
     (if c = ch CHR ''E'' \<or> c = ch CHR ''e''
      then
        (case lex_get_save lx error of
           (c1, lx1, error1) \<Rightarrow>
             (case (if c1 = ch CHR ''+'' \<or> c1 = ch CHR ''-'' then lex_get_save lx1 error1
                    else (c1, lx1, error1)) of
                (c2, lx2, error2) \<Rightarrow>
                  (if \<not> l_isdigit c2
                   then map_option (\<lambda>l. (False, c2, l, error2)) (lex_unget_unsave lx2 c2)
                   else
                     (case lex_get_save lx2 error2 of
                        (c3, lx3, error3) \<Rightarrow>
                          (case lex_digits c3 lx3 error3 of
                             (c4, lx4, error4) \<Rightarrow> Some (True, c4, lx4, error4))))))
      else Some (True, c, lx, error))"

text \<open>
  \<^verbatim>\<open>lex_scan_number\<close> from the test \<^verbatim>\<open>if(c != '.' && c != 'E' && c != 'e')\<close> on. The
  result is the value returned (0, or -1 at \<^verbatim>\<open>out\<close>) with the lexer and the error
  record. The assertion on \<^verbatim>\<open>end\<close> holds for \<^verbatim>\<open>strtoll\<close> on an optional sign and digits.
\<close>

definition lex_scan_number_rest ::
  "int \<Rightarrow> lex_t \<Rightarrow> json_error_t option \<Rightarrow> (int \<times> lex_t \<times> json_error_t option) option" where
  "lex_scan_number_rest c lx error =
     (if c \<noteq> ch CHR ''.'' \<and> c \<noteq> ch CHR ''E'' \<and> c \<noteq> ch CHR ''e''
      then
        (case lex_unget_unsave lx c of
           None \<Rightarrow> None
         | Some lx1 \<Rightarrow>
             (case json_strtoint (saved_text lx1) of
                (v, erange) \<Rightarrow>
                  (if erange
                   then
                     (if v < 0
                      then Some (- 1, lx1,
                             error_set error (Some lx1) (str ''too big negative integer''))
                      else Some (- 1, lx1, error_set error (Some lx1) (str ''too big integer'')))
                   else Some (0, lx1\<lparr>token := TOKEN_INTEGER, lex_value := V_integer v\<rparr>, error))))
      else
        (case lex_scan_fraction c lx error of
           None \<Rightarrow> None
         | Some (False, c1, lx1, error1) \<Rightarrow> Some (- 1, lx1, error1)
         | Some (True, c1, lx1, error1) \<Rightarrow>
             (case lex_scan_exponent c1 lx1 error1 of
                None \<Rightarrow> None
              | Some (False, c2, lx2, error2) \<Rightarrow> Some (- 1, lx2, error2)
              | Some (True, c2, lx2, error2) \<Rightarrow>
                  (case lex_unget_unsave lx2 c2 of
                     None \<Rightarrow> None
                   | Some lx3 \<Rightarrow>
                       (case jsonp_strtod (saved_text lx3) of
                          None \<Rightarrow>
                            Some (- 1, lx3,
                              error_set error2 (Some lx3) (str ''real number overflow''))
                        | Some v \<Rightarrow>
                            Some (0, lx3\<lparr>token := TOKEN_REAL, lex_value := V_real v\<rparr>,
                              error2))))))"

definition lex_scan_number ::
  "lex_t \<Rightarrow> int \<Rightarrow> json_error_t option \<Rightarrow> (int \<times> lex_t \<times> json_error_t option) option" where
  "lex_scan_number lx c error =
     (let lx0 = lx\<lparr>token := TOKEN_INVALID\<rparr>
      in (case (if c = ch CHR ''-'' then lex_get_save lx0 error else (c, lx0, error)) of
            (c1, lx1, error1) \<Rightarrow>
              (if c1 = ch CHR ''0''
               then
                 (case lex_get_save lx1 error1 of
                    (c2, lx2, error2) \<Rightarrow>
                      (if l_isdigit c2
                       then map_option (\<lambda>l. (- 1, l, error2)) (lex_unget_unsave lx2 c2)
                       else lex_scan_number_rest c2 lx2 error2))
               else if l_isdigit c1
               then
                 (case lex_get_save lx1 error1 of
                    (c2, lx2, error2) \<Rightarrow>
                      (case lex_digits c2 lx2 error2 of
                         (c3, lx3, error3) \<Rightarrow> lex_scan_number_rest c3 lx3 error3))
               else map_option (\<lambda>l. (- 1, l, error1)) (lex_unget_unsave lx1 c1))))"

subsection \<open>Tokens\<close>

text \<open>
  \<^verbatim>\<open>lex_scan\<close>: the lexer with the next token and the error record, or \<open>None\<close> when an
  assertion stopped the program. \<^verbatim>\<open>strcmp\<close> compares the saved letters with the keyword.
\<close>

definition lex_scan ::
  "lex_t \<Rightarrow> json_error_t option \<Rightarrow> (lex_t \<times> json_error_t option) option" where
  "lex_scan lx error =
     (let lx0 = lx\<lparr>saved_text := []\<rparr>;
          lx1 = (if token lx0 = TOKEN_STRING then lx0\<lparr>lex_value := V_string None\<rparr> else lx0)
      in (case lex_get lx1 error of
            (c0, lx2, error2) \<Rightarrow>
              (case lex_skip_space c0 lx2 error2 of
                 (c, lx3, error3) \<Rightarrow>
                   (if c = C_EOF then Some (lx3\<lparr>token := TOKEN_EOF\<rparr>, error3)
                    else if c = C_ERROR then Some (lx3\<lparr>token := TOKEN_INVALID\<rparr>, error3)
                    else
                      (let lx4 = lex_save lx3 c
                       in if c = ch CHR ''{'' \<or> c = ch CHR ''}'' \<or> c = ch CHR ''['' \<or>
                             c = ch CHR '']'' \<or> c = ch CHR '':'' \<or> c = ch CHR '',''
                          then Some (lx4\<lparr>token := c\<rparr>, error3)
                          else if c = ch CHR 0x22 then lex_scan_string lx4 error3
                          else if l_isdigit c \<or> c = ch CHR ''-''
                          then map_option (\<lambda>(r, l, e). (l, e)) (lex_scan_number lx4 c error3)
                          else if l_isalpha c
                          then
                            (case lex_get_save lx4 error3 of
                               (c1, lx5, error5) \<Rightarrow>
                                 (case lex_alphas c1 lx5 error5 of
                                    (c2, lx6, error6) \<Rightarrow>
                                      (case lex_unget_unsave lx6 c2 of
                                         None \<Rightarrow> None
                                       | Some lx7 \<Rightarrow>
                                           (if saved_text lx7 = str ''true''
                                            then Some (lx7\<lparr>token := TOKEN_TRUE\<rparr>, error6)
                                            else if saved_text lx7 = str ''false''
                                            then Some (lx7\<lparr>token := TOKEN_FALSE\<rparr>, error6)
                                            else if saved_text lx7 = str ''null''
                                            then Some (lx7\<lparr>token := TOKEN_NULL\<rparr>, error6)
                                            else Some (lx7\<lparr>token := TOKEN_INVALID\<rparr>, error6)))))
                          else Some ((lex_save_cached lx4)\<lparr>token := TOKEN_INVALID\<rparr>,
                                 error3))))))"

text \<open>\<^verbatim>\<open>lex_steal_string\<close>: the string of the token, which the union gives up.\<close>

definition lex_steal_string :: "lex_t \<Rightarrow> byte list option \<times> lex_t" where
  "lex_steal_string lx =
     (if token lx = TOKEN_STRING
      then (case lex_value lx of
              V_string s \<Rightarrow> (s, lx\<lparr>lex_value := V_string None\<rparr>)
            | _ \<Rightarrow> (None, lx))
      else (None, lx))"

lemmas lex_eval = stream_get_def lex_init_def stream_init_def buffer_at_def Let_def
  utf8_check_first_def int_to_char_def stream_fill.simps utf8_check_full_def
  stream_get_next_def char_to_int_def stream_get_out_def stream_unget_def
  lex_scan_def lex_get_def lex_get_save_def lex_save_def lex_unget_def lex_unget_unsave_def
  lex_skip_space.simps lex_digits.simps lex_alphas.simps lex_scan_number_def
  lex_scan_number_rest_def lex_scan_fraction_def lex_scan_exponent_def
  lex_scan_string_def lex_scan_string_loop.simps lex_scan_string_step_def
  lex_scan_xdigits.simps decode_string.simps decode_unicode_escape_def
  decode_unicode_escape_loop.simps short_escape_def cstr_at_def
  l_isdigit_def l_isalpha_def l_isupper_def l_islower_def l_isxdigit_def
  json_strtoint_def jsonp_strtod_def strtod_decimal_def strtod_round_def
  round_half_even_def bit_length.simps
  is_digit_byte_def digits_value_def LLONG_MAX_def LLONG_MIN_def str_def
  utf8_encode_def lex_save_cached.simps

section \<open>Values\<close>

text \<open>
  Modelled from the spec: the value tree and its builder (\<^verbatim>\<open>json_ref\<close>, \<^verbatim>\<open>json_object\<close>,
  \<^verbatim>\<open>json_object_get\<close>, \<^verbatim>\<open>json_object_set_nocheck\<close>, \<^verbatim>\<open>json_array\<close>,
  \<^verbatim>\<open>json_array_append\<close>, \<^verbatim>\<open>typed_string_to_json\<close>, \<^verbatim>\<open>json_integer\<close>, \<^verbatim>\<open>json_real\<close>,
  \<^verbatim>\<open>json_true\<close>, \<^verbatim>\<open>json_false\<close>, \<^verbatim>\<open>json_null\<close>) are defined outside load.cpp. The spec:
  construct an empty object and an empty array, the singletons, a string from a decoded
  byte buffer, an integer from a 64-bit signed value, a real from a double; set a key of
  an object, overwriting; look a key up; append to an array. A null \<^verbatim>\<open>json_ref\<close> is
  \<open>None\<close>. An object is the list of its members in the order of their first insertion.
\<close>

datatype json =
    JSON_OBJECT "(byte list \<times> json) list"
  | JSON_ARRAY "json list"
  | JSON_STRING "byte list"
  | JSON_INTEGER int
  | JSON_REAL double
  | JSON_TRUE
  | JSON_FALSE
  | JSON_NULL

definition json_object :: json where
  "json_object = JSON_OBJECT []"

definition json_array :: json where
  "json_array = JSON_ARRAY []"

fun json_object_get :: "json \<Rightarrow> byte list \<Rightarrow> json option" where
  "json_object_get (JSON_OBJECT kvs) key = map_of kvs key"
| "json_object_get _ key = None"

fun object_update :: "byte list \<Rightarrow> json \<Rightarrow> (byte list \<times> json) list \<Rightarrow> (byte list \<times> json) list" where
  "object_update k v [] = [(k, v)]"
| "object_update k v ((k', v') # kvs) =
     (if k = k' then (k, v) # kvs else (k', v') # object_update k v kvs)"

text \<open>The two setters give the value they return (0, or -1) and the container.\<close>

fun json_object_set_nocheck :: "json \<Rightarrow> byte list \<Rightarrow> json \<Rightarrow> int \<times> json" where
  "json_object_set_nocheck (JSON_OBJECT kvs) key v = (0, JSON_OBJECT (object_update key v kvs))"
| "json_object_set_nocheck j key v = (- 1, j)"

fun json_array_append :: "json \<Rightarrow> json \<Rightarrow> int \<times> json" where
  "json_array_append (JSON_ARRAY xs) v = (0, JSON_ARRAY (xs @ [v]))"
| "json_array_append j v = (- 1, j)"

text \<open>
  Modelled from the spec: the flags \<^verbatim>\<open>JSON_REJECT_DUPLICATES\<close>, \<^verbatim>\<open>JSON_DISABLE_EOF_CHECK\<close>
  and \<^verbatim>\<open>JSON_DECODE_ANY\<close> are constants of jansson.h. The spec's options are three
  booleans: reject duplicate keys, require exact consumption (unset when
  \<^verbatim>\<open>JSON_DISABLE_EOF_CHECK\<close> is set) and allow a scalar at the top level. A field of the
  record is the test \<^verbatim>\<open>flags & JSON_...\<close>.
\<close>

record json_flags =
  reject_duplicates :: bool
  disable_eof_check :: bool
  decode_any :: bool

section \<open>The parser\<close>

text \<open>
  The parser is recursive on the nesting of the text. The model counts the calls down
  from \<open>fuel\<close>: \<open>Out_of_fuel\<close> when the count is used up, \<open>Assert_failed\<close> when an
  assertion stopped the lexer, \<open>Returned\<close> with the value (null is \<open>None\<close>), the lexer and
  the error record otherwise.
\<close>

datatype 'a outcome = Out_of_fuel | Assert_failed | Returned 'a

type_synonym parse_result = "(json option \<times> lex_t \<times> json_error_t option) outcome"

text \<open>The end of \<^verbatim>\<open>parse_array\<close>, after the loop.\<close>

definition parse_array_end :: "json \<Rightarrow> lex_t \<Rightarrow> json_error_t option \<Rightarrow> parse_result" where
  "parse_array_end array lx error =
     (if token lx \<noteq> ch CHR '']''
      then Returned (None, lx, error_set error (Some lx) (str '']'' @ [0x27] @ str '' expected''))
      else Returned (Some array, lx, error))"

text \<open>The end of \<^verbatim>\<open>parse_object\<close>, after the loop.\<close>

definition parse_object_end :: "json \<Rightarrow> lex_t \<Rightarrow> json_error_t option \<Rightarrow> parse_result" where
  "parse_object_end object lx error =
     (if token lx \<noteq> ch CHR ''}''
      then Returned (None, lx, error_set error (Some lx) ([0x27] @ str ''}'' @ [0x27] @ str '' expected''))
      else Returned (Some object, lx, error))"

definition msg_string_or_brace :: "byte list" where
  "msg_string_or_brace = str ''string or '' @ [0x27] @ str ''}'' @ [0x27] @ str '' expected''"

definition msg_colon :: "byte list" where
  "msg_colon = [0x27] @ str '':'' @ [0x27] @ str '' expected''"

definition msg_bracket_or_brace :: "byte list" where
  "msg_bracket_or_brace =
     [0x27] @ str ''['' @ [0x27] @ str '' or '' @ [0x27] @ str ''{'' @ [0x27] @ str '' expected''"

text \<open>
  \<^verbatim>\<open>parse_value\<close>, \<^verbatim>\<open>parse_object\<close> with its loop \<^verbatim>\<open>while(1)\<close>, \<^verbatim>\<open>parse_array\<close> with its
  loop \<^verbatim>\<open>while(lex->token)\<close>. The loops take the container built so far.
\<close>

function parse_value :: "nat \<Rightarrow> lex_t \<Rightarrow> json_flags \<Rightarrow> json_error_t option \<Rightarrow> parse_result"
  and parse_object :: "nat \<Rightarrow> lex_t \<Rightarrow> json_flags \<Rightarrow> json_error_t option \<Rightarrow> parse_result"
  and parse_object_loop ::
    "nat \<Rightarrow> json \<Rightarrow> lex_t \<Rightarrow> json_flags \<Rightarrow> json_error_t option \<Rightarrow> parse_result"
  and parse_array :: "nat \<Rightarrow> lex_t \<Rightarrow> json_flags \<Rightarrow> json_error_t option \<Rightarrow> parse_result"
  and parse_array_loop ::
    "nat \<Rightarrow> json \<Rightarrow> lex_t \<Rightarrow> json_flags \<Rightarrow> json_error_t option \<Rightarrow> parse_result"
where
  "parse_value fuel lx flags error =
     (if fuel = 0 then Out_of_fuel
      else if token lx = TOKEN_STRING
      then (case lex_value lx of
              V_string (Some s) \<Rightarrow> Returned (Some (JSON_STRING s), lx, error)
            | _ \<Rightarrow> Returned (None, lx, error))
      else if token lx = TOKEN_INTEGER
      then (case lex_value lx of
              V_integer i \<Rightarrow> Returned (Some (JSON_INTEGER i), lx, error)
            | _ \<Rightarrow> Returned (None, lx, error))
      else if token lx = TOKEN_REAL
      then (case lex_value lx of
              V_real r \<Rightarrow> Returned (Some (JSON_REAL r), lx, error)
            | _ \<Rightarrow> Returned (None, lx, error))
      else if token lx = TOKEN_TRUE then Returned (Some JSON_TRUE, lx, error)
      else if token lx = TOKEN_FALSE then Returned (Some JSON_FALSE, lx, error)
      else if token lx = TOKEN_NULL then Returned (Some JSON_NULL, lx, error)
      else if token lx = ch CHR ''{'' then parse_object (fuel - 1) lx flags error
      else if token lx = ch CHR ''['' then parse_array (fuel - 1) lx flags error
      else if token lx = TOKEN_INVALID
      then Returned (None, lx, error_set error (Some lx) (str ''invalid token''))
      else Returned (None, lx, error_set error (Some lx) (str ''unexpected token'')))"
| "parse_object fuel lx flags error =
     (if fuel = 0 then Out_of_fuel
      else
        (case lex_scan lx error of
           None \<Rightarrow> Assert_failed
         | Some (lx1, error1) \<Rightarrow>
             (if token lx1 = ch CHR ''}'' then Returned (Some json_object, lx1, error1)
              else parse_object_loop (fuel - 1) json_object lx1 flags error1)))"
| "parse_object_loop fuel object lx flags error =
     (if fuel = 0 then Out_of_fuel
      else if token lx \<noteq> TOKEN_STRING
      then Returned (None, lx, error_set error (Some lx) msg_string_or_brace)
      else
        (case lex_steal_string lx of
           (None, lx1) \<Rightarrow> Returned (None, lx1, error)
         | (Some key, lx1) \<Rightarrow>
             (if reject_duplicates flags \<and> json_object_get object key \<noteq> None
              then Returned (None, lx1, error_set error (Some lx1) (str ''duplicate object key''))
              else
                (case lex_scan lx1 error of
                   None \<Rightarrow> Assert_failed
                 | Some (lx2, error2) \<Rightarrow>
                     (if token lx2 \<noteq> ch CHR '':''
                      then Returned (None, lx2, error_set error2 (Some lx2) msg_colon)
                      else
                        (case lex_scan lx2 error2 of
                           None \<Rightarrow> Assert_failed
                         | Some (lx3, error3) \<Rightarrow>
                             (case parse_value (fuel - 1) lx3 flags error3 of
                                Out_of_fuel \<Rightarrow> Out_of_fuel
                              | Assert_failed \<Rightarrow> Assert_failed
                              | Returned (None, lx4, error4) \<Rightarrow> Returned (None, lx4, error4)
                              | Returned (Some v, lx4, error4) \<Rightarrow>
                                  (case json_object_set_nocheck object key v of
                                     (rc, object1) \<Rightarrow>
                                       (if rc \<noteq> 0 then Returned (None, lx4, error4)
                                        else
                                          (case lex_scan lx4 error4 of
                                             None \<Rightarrow> Assert_failed
                                           | Some (lx5, error5) \<Rightarrow>
                                               (if token lx5 \<noteq> ch CHR '',''
                                                then parse_object_end object1 lx5 error5
                                                else
                                                  (case lex_scan lx5 error5 of
                                                     None \<Rightarrow> Assert_failed
                                                   | Some (lx6, error6) \<Rightarrow>
                                                       parse_object_loop (fuel - 1) object1 lx6
                                                         flags error6))))))))))))"
| "parse_array fuel lx flags error =
     (if fuel = 0 then Out_of_fuel
      else
        (case lex_scan lx error of
           None \<Rightarrow> Assert_failed
         | Some (lx1, error1) \<Rightarrow>
             (if token lx1 = ch CHR '']'' then Returned (Some json_array, lx1, error1)
              else parse_array_loop (fuel - 1) json_array lx1 flags error1)))"
| "parse_array_loop fuel array lx flags error =
     (if fuel = 0 then Out_of_fuel
      else if token lx \<noteq> 0
      then
        (case parse_value (fuel - 1) lx flags error of
           Out_of_fuel \<Rightarrow> Out_of_fuel
         | Assert_failed \<Rightarrow> Assert_failed
         | Returned (None, lx1, error1) \<Rightarrow> Returned (None, lx1, error1)
         | Returned (Some elem, lx1, error1) \<Rightarrow>
             (case json_array_append array elem of
                (rc, array1) \<Rightarrow>
                  (if rc \<noteq> 0 then Returned (None, lx1, error1)
                   else
                     (case lex_scan lx1 error1 of
                        None \<Rightarrow> Assert_failed
                      | Some (lx2, error2) \<Rightarrow>
                          (if token lx2 \<noteq> ch CHR '',''
                           then parse_array_end array1 lx2 error2
                           else
                             (case lex_scan lx2 error2 of
                                None \<Rightarrow> Assert_failed
                              | Some (lx3, error3) \<Rightarrow>
                                  parse_array_loop (fuel - 1) array1 lx3 flags error3))))))
      else parse_array_end array lx error)"
  by pat_completeness auto
termination
  by (relation "measure (case_sum (case_sum (\<lambda>(f, _). f) (\<lambda>(f, _). f))
          (case_sum (\<lambda>(f, _). f) (case_sum (\<lambda>(f, _). f) (\<lambda>(f, _). f))))")
     auto

declare parse_value.simps [simp del] parse_object.simps [simp del]
  parse_object_loop.simps [simp del] parse_array.simps [simp del]
  parse_array_loop.simps [simp del]

text \<open>\<^verbatim>\<open>parse_json\<close>; \<open>fuel\<close> is the count for \<^verbatim>\<open>parse_value\<close>.\<close>

definition parse_json ::
  "nat \<Rightarrow> lex_t \<Rightarrow> json_flags \<Rightarrow> json_error_t option \<Rightarrow> parse_result" where
  "parse_json fuel lx flags error =
     (case lex_scan lx error of
        None \<Rightarrow> Assert_failed
      | Some (lx1, error1) \<Rightarrow>
          (if \<not> decode_any flags \<and> token lx1 \<noteq> ch CHR ''['' \<and> token lx1 \<noteq> ch CHR ''{''
           then Returned (None, lx1, error_set error1 (Some lx1) msg_bracket_or_brace)
           else
             (case parse_value fuel lx1 flags error1 of
                Out_of_fuel \<Rightarrow> Out_of_fuel
              | Assert_failed \<Rightarrow> Assert_failed
              | Returned (None, lx2, error2) \<Rightarrow> Returned (None, lx2, error2)
              | Returned (Some result, lx2, error2) \<Rightarrow>
                  (if \<not> disable_eof_check flags
                   then
                     (case lex_scan lx2 error2 of
                        None \<Rightarrow> Assert_failed
                      | Some (lx3, error3) \<Rightarrow>
                          (if token lx3 \<noteq> TOKEN_EOF
                           then Returned (None, lx3,
                                  error_set error3 (Some lx3) (str ''end of file expected''))
                           else Returned (Some result, lx3,
                                  map_option (\<lambda>e. e\<lparr>err_position := position (stream lx3)\<rparr>)
                                    error3)))
                   else Returned (Some result, lx2,
                          map_option (\<lambda>e. e\<lparr>err_position := position (stream lx2)\<rparr>)
                            error2)))))"

text \<open>
  What the caller of an entry point gets: the value returned, and the error record it
  passed (\<^verbatim>\<open>lex_close\<close> frees the lexer).
\<close>

type_synonym load_result = "(json option \<times> json_error_t option) outcome"

definition lex_close :: "parse_result \<Rightarrow> load_result" where
  "lex_close r =
     (case r of
        Out_of_fuel \<Rightarrow> Out_of_fuel
      | Assert_failed \<Rightarrow> Assert_failed
      | Returned (result, lx, error) \<Rightarrow> Returned (result, error))"

text \<open>
  \<^verbatim>\<open>json_loadb\<close> for a buffer that is not null; \<open>with_error\<close> says whether the caller
  passes an error record. \<^verbatim>\<open>buffer_get\<close> gives the bytes of the buffer in turn, then
  \<^verbatim>\<open>EOF\<close>.
\<close>

definition json_loadb :: "nat \<Rightarrow> byte list \<Rightarrow> json_flags \<Rightarrow> bool \<Rightarrow> load_result" where
  "json_loadb fuel buffer_bytes flags with_error =
     lex_close (parse_json fuel (lex_init (map Some buffer_bytes)) flags
       (jsonp_error_init with_error (str ''<buffer>'')))"

text \<open>
  \<^verbatim>\<open>json_loads\<close> for a string that is not null: \<^verbatim>\<open>string_get\<close> gives the bytes up to
  the first NUL.
\<close>

definition json_loads :: "nat \<Rightarrow> byte list \<Rightarrow> json_flags \<Rightarrow> bool \<Rightarrow> load_result" where
  "json_loads fuel string_bytes flags with_error =
     lex_close (parse_json fuel (lex_init (map Some (takeWhile (\<lambda>b. b \<noteq> 0) string_bytes))) flags
       (jsonp_error_init with_error (str ''<string>'')))"

section \<open>The claims on the lexer and the parser\<close>

subsection \<open>Running the entry points\<close>

text \<open>
  The flags 0, the error record as \<^verbatim>\<open>jsonp_error_init\<close> leaves it, and the lexer of
  \<^verbatim>\<open>json_loadb\<close> after \<open>n\<close> calls of \<^verbatim>\<open>lex_scan\<close> on a buffer, with the error record
  then. They name the states the statements below are applied to.
\<close>

definition flags_default :: json_flags where
  "flags_default = \<lparr>reject_duplicates = False, disable_eof_check = False, decode_any = False\<rparr>"

definition error_fresh :: "byte list \<Rightarrow> json_error_t" where
  "error_fresh source =
     \<lparr>err_line = - 1, err_column = - 1, err_position = 0, err_source = source, err_text = []\<rparr>"

fun lex_scans ::
  "nat \<Rightarrow> lex_t \<Rightarrow> json_error_t option \<Rightarrow> (lex_t \<times> json_error_t option) option" where
  "lex_scans 0 lx e = Some (lx, e)"
| "lex_scans (Suc n) lx e =
     (case lex_scan lx e of None \<Rightarrow> None | Some (lx1, e1) \<Rightarrow> lex_scans n lx1 e1)"

definition lex_after :: "nat \<Rightarrow> byte list \<Rightarrow> lex_t" where
  "lex_after n bs =
     fst (the (lex_scans n (lex_init (map Some bs)) (jsonp_error_init True (str ''<buffer>''))))"

definition error_after :: "nat \<Rightarrow> byte list \<Rightarrow> json_error_t option" where
  "error_after n bs =
     snd (the (lex_scans n (lex_init (map Some bs)) (jsonp_error_init True (str ''<buffer>''))))"

subsection \<open>One turn of the loops of the parser\<close>

lemma map_of_object_update:
  "map_of (object_update k v kvs) = (map_of kvs)(k \<mapsto> v)"
  by (induction kvs) auto

lemma json_object_get_set:
  "json_object_get (JSON_OBJECT (object_update key v kvs)) k =
     (if k = key then Some v else json_object_get (JSON_OBJECT kvs) k)"
  by (simp add: map_of_object_update)

lemma object_update_keys:
  "map fst (object_update key v kvs)
     = (if key \<in> set (map fst kvs) then map fst kvs else map fst kvs @ [key])"
  by (induction kvs) (fastforce simp add: image_iff)+

lemma parse_object_loop_duplicate:
  assumes "fuel \<noteq> 0" "token lx = TOKEN_STRING" "lex_value lx = V_string (Some key)"
    "reject_duplicates flags" "json_object_get object key \<noteq> None"
  shows "parse_object_loop fuel object lx flags e =
     Returned (None, lx\<lparr>lex_value := V_string None\<rparr>,
       error_set e (Some (lx\<lparr>lex_value := V_string None\<rparr>)) (str ''duplicate object key''))"
  using assms by (subst parse_object_loop.simps) (simp add: lex_steal_string_def)

lemma parse_object_loop_member:
  assumes "fuel \<noteq> 0" "token lx = TOKEN_STRING" "lex_value lx = V_string (Some key)"
    "\<not> (reject_duplicates flags \<and> json_object_get (JSON_OBJECT kvs) key \<noteq> None)"
    "lex_scan (lx\<lparr>lex_value := V_string None\<rparr>) e = Some (lx2, e2)"
    "token lx2 = ch CHR '':''"
    "lex_scan lx2 e2 = Some (lx3, e3)"
    "parse_value (fuel - 1) lx3 flags e3 = Returned (Some v, lx4, e4)"
    "lex_scan lx4 e4 = Some (lx5, e5)"
  shows "parse_object_loop fuel (JSON_OBJECT kvs) lx flags e =
     (if token lx5 \<noteq> ch CHR '',''
      then parse_object_end (JSON_OBJECT (object_update key v kvs)) lx5 e5
      else (case lex_scan lx5 e5 of
              None \<Rightarrow> Assert_failed
            | Some (lx6, e6) \<Rightarrow>
                parse_object_loop (fuel - 1) (JSON_OBJECT (object_update key v kvs)) lx6 flags e6))"
  using assms by (subst parse_object_loop.simps) (auto simp add: lex_steal_string_def)

lemma parse_array_loop_element:
  assumes "fuel \<noteq> 0" "token lx \<noteq> 0"
    "parse_value (fuel - 1) lx flags e = Returned (Some v, lx1, e1)"
    "lex_scan lx1 e1 = Some (lx2, e2)"
  shows "parse_array_loop fuel (JSON_ARRAY xs) lx flags e =
     (if token lx2 \<noteq> ch CHR '','' then parse_array_end (JSON_ARRAY (xs @ [v])) lx2 e2
      else (case lex_scan lx2 e2 of
              None \<Rightarrow> Assert_failed
            | Some (lx3, e3) \<Rightarrow> parse_array_loop (fuel - 1) (JSON_ARRAY (xs @ [v])) lx3 flags e3))"
  using assms by (subst parse_array_loop.simps) simp

lemma parse_object_loop_not_string:
  "fuel \<noteq> 0 \<Longrightarrow> token lx \<noteq> TOKEN_STRING \<Longrightarrow>
   parse_object_loop fuel object lx flags e
     = Returned (None, lx, error_set e (Some lx) msg_string_or_brace)"
  by (subst parse_object_loop.simps) simp

lemma parse_value_bracket:
  "fuel \<noteq> 0 \<Longrightarrow> token lx = ch CHR '']'' \<Longrightarrow>
   parse_value fuel lx flags e
     = Returned (None, lx, error_set e (Some lx) (str ''unexpected token''))"
  by (subst parse_value.simps) simp

lemma parse_array_loop_bracket:
  "2 \<le> fuel \<Longrightarrow> token lx = ch CHR '']'' \<Longrightarrow>
   parse_array_loop fuel array lx flags e
     = Returned (None, lx, error_set e (Some lx) (str ''unexpected token''))"
  by (subst parse_array_loop.simps) (simp add: parse_value_bracket)

subsection \<open>Escapes that are not hexadecimal\<close>

lemma l_isxdigit_always: "l_isxdigit c"
  by (auto simp add: l_isxdigit_def)

lemma non_hex_escape_example:
  "json_loadb 10 ([0x22, 0x5C] @ str ''uGGGG'' @ [0x22]) (flags_default\<lparr>decode_any := True\<rparr>) True
   = Returned (Some (JSON_STRING [0xF0, 0x91, 0x84, 0x90]),
       Some ((error_fresh (str ''<buffer>''))\<lparr>err_position := 8\<rparr>))"
  by code_simp

lemma non_hex_escape_token:
  "token (lex_after 1 ([0x22, 0x5C] @ str ''uGGGG'' @ [0x22])) = TOKEN_STRING \<and>
   error_after 1 ([0x22, 0x5C] @ str ''uGGGG'' @ [0x22]) = Some (error_fresh (str ''<buffer>''))"
  by code_simp

text \<open>
  Claim C1. The macro \<^verbatim>\<open>l_isxdigit\<close> holds of every character, so the first pass of
  \<^verbatim>\<open>lex_scan_string\<close> lets every escape \<^verbatim>\<open>\u\<close> through: the text \<^verbatim>\<open>"\uGGGG"\<close> gives the
  token \<^verbatim>\<open>TOKEN_STRING\<close> with no error recorded, and \<^verbatim>\<open>json_loadb\<close> with
  \<^verbatim>\<open>JSON_DECODE_ANY\<close> returns a string for it, the bytes F0 91 84 90.
\<close>

theorem lex_scan_string_accepts_non_hex:
  "(\<forall>c. l_isxdigit c) \<and>
   token (lex_after 1 ([0x22, 0x5C] @ str ''uGGGG'' @ [0x22])) = TOKEN_STRING \<and>
   error_after 1 ([0x22, 0x5C] @ str ''uGGGG'' @ [0x22]) = Some (error_fresh (str ''<buffer>'')) \<and>
   json_loadb 10 ([0x22, 0x5C] @ str ''uGGGG'' @ [0x22]) (flags_default\<lparr>decode_any := True\<rparr>) True
   = Returned (Some (JSON_STRING [0xF0, 0x91, 0x84, 0x90]),
       Some ((error_fresh (str ''<buffer>''))\<lparr>err_position := 8\<rparr>))"
  using l_isxdigit_always non_hex_escape_example non_hex_escape_token by blast

subsection \<open>The context of a message\<close>

lemma nul_token_example:
  "json_loadb 10 [0x5B, 0x00, 0x5D] flags_default True
   = Returned (None,
       Some \<lparr>err_line = 1, err_column = 2, err_position = 2, err_source = str ''<buffer>'',
         err_text = str ''invalid token near end of file''\<rparr>)"
  by code_simp

lemma nul_token_state:
  "saved_text (lex_after 2 [0x5B, 0x00, 0x5D]) = [0x00] \<and>
   state (stream (lex_after 2 [0x5B, 0x00, 0x5D])) = STREAM_STATE_OK \<and>
   data (stream (lex_after 2 [0x5B, 0x00, 0x5D])) = [Some 0x5D]"
  by code_simp

lemma soh_token_example:
  "json_loadb 10 [0x5B, 0x01, 0x5D] flags_default True
   = Returned (None,
       Some \<lparr>err_line = 1, err_column = 2, err_position = 2, err_source = str ''<buffer>'',
         err_text = str ''invalid token near '' @ [0x27, 0x01, 0x27]\<rparr>)"
  by code_simp

text \<open>
  Claim C9. \<^verbatim>\<open>error_set\<close> tests \<^verbatim>\<open>saved_text[0]\<close>, the first byte of the text, in place
  of its length. For the three bytes 5B 00 5D the token that is refused has the saved text
  00, one byte long, the stream is in the state Ok and the byte 5D is still to come, and
  the message ends in \<open>near end of file\<close>; for the bytes 5B 01 5D the message ends in the
  saved text between quotes.
\<close>

theorem error_set_nul_saved_text:
  "saved_text (lex_after 2 [0x5B, 0x00, 0x5D]) = [0x00] \<and>
   state (stream (lex_after 2 [0x5B, 0x00, 0x5D])) = STREAM_STATE_OK \<and>
   data (stream (lex_after 2 [0x5B, 0x00, 0x5D])) = [Some 0x5D] \<and>
   json_loadb 10 [0x5B, 0x00, 0x5D] flags_default True
   = Returned (None,
       Some \<lparr>err_line = 1, err_column = 2, err_position = 2, err_source = str ''<buffer>'',
         err_text = str ''invalid token near end of file''\<rparr>) \<and>
   json_loadb 10 [0x5B, 0x01, 0x5D] flags_default True
   = Returned (None,
       Some \<lparr>err_line = 1, err_column = 2, err_position = 2, err_source = str ''<buffer>'',
         err_text = str ''invalid token near '' @ [0x27, 0x01, 0x27]\<rparr>)"
  using nul_token_example nul_token_state soh_token_example by blast

subsection \<open>Surrogate pairs\<close>

text \<open>
  The hexadecimal digits and the number that four of them write, as the spec has them.
\<close>

definition is_hex_byte :: "byte \<Rightarrow> bool" where
  "is_hex_byte b =
     (let c = char_to_int b
      in (ch CHR ''0'' \<le> c \<and> c \<le> ch CHR ''9'') \<or> (ch CHR ''a'' \<le> c \<and> c \<le> ch CHR ''f'') \<or>
         (ch CHR ''A'' \<le> c \<and> c \<le> ch CHR ''F''))"

definition hex_digit_value :: "byte \<Rightarrow> int" where
  "hex_digit_value b =
     (let c = char_to_int b
      in if c \<le> ch CHR ''9'' then c - ch CHR ''0''
         else if c \<le> ch CHR ''F'' then c - ch CHR ''A'' + 10
         else c - ch CHR ''a'' + 10)"

definition hex_value :: "byte list \<Rightarrow> int" where
  "hex_value hs = foldl (\<lambda>v b. v * 16 + hex_digit_value b) 0 hs"

lemma decode_unicode_escape_loop_hex:
  assumes "i \<le> 4" "is_hex_byte (cstr_at s i)" "j = i + 1"
  shows "decode_unicode_escape_loop i s v
     = decode_unicode_escape_loop j s (v * 16 + hex_digit_value (cstr_at s i))"
  using assms
  by (subst decode_unicode_escape_loop.simps)
     (auto simp add: is_hex_byte_def hex_digit_value_def Let_def l_isdigit_def l_islower_def
        l_isupper_def)

lemma decode_unicode_escape_hex:
  assumes "length hs = 4" "list_all is_hex_byte hs"
  shows "decode_unicode_escape (0x75 # hs @ r) = Some (hex_value hs)"
proof -
  from assms(1) obtain a b c d where hs: "hs = [a, b, c, d]"
    by (cases hs; cases "tl hs"; cases "tl (tl hs)"; cases "tl (tl (tl hs))") auto
  let ?s = "0x75 # hs @ r"
  have at: "cstr_at ?s 0 = 0x75" "cstr_at ?s 1 = a" "cstr_at ?s 2 = b" "cstr_at ?s 3 = c"
    "cstr_at ?s 4 = d"
    by (simp_all add: cstr_at_def hs)
  have hx: "is_hex_byte a" "is_hex_byte b" "is_hex_byte c" "is_hex_byte d"
    using assms(2) by (simp_all add: hs)
  have s1: "decode_unicode_escape_loop 1 ?s v
      = decode_unicode_escape_loop 2 ?s (v * 16 + hex_digit_value a)" for v
    by (rule decode_unicode_escape_loop_hex [where i = 1 and j = 2 and s = ?s, unfolded at(2)])
       (use hx in simp_all)
  have s2: "decode_unicode_escape_loop 2 ?s v
      = decode_unicode_escape_loop 3 ?s (v * 16 + hex_digit_value b)" for v
    by (rule decode_unicode_escape_loop_hex [where i = 2 and j = 3 and s = ?s, unfolded at(3)])
       (use hx in simp_all)
  have s3: "decode_unicode_escape_loop 3 ?s v
      = decode_unicode_escape_loop 4 ?s (v * 16 + hex_digit_value c)" for v
    by (rule decode_unicode_escape_loop_hex [where i = 3 and j = 4 and s = ?s, unfolded at(4)])
       (use hx in simp_all)
  have s4: "decode_unicode_escape_loop 4 ?s v
      = decode_unicode_escape_loop 5 ?s (v * 16 + hex_digit_value d)" for v
    by (rule decode_unicode_escape_loop_hex [where i = 4 and j = 5 and s = ?s, unfolded at(5)])
       (use hx in simp_all)
  have s5: "decode_unicode_escape_loop 5 ?s v = Some v" for v
    by (subst decode_unicode_escape_loop.simps) simp
  have "decode_unicode_escape_loop 1 ?s 0
      = Some ((((0 * 16 + hex_digit_value a) * 16 + hex_digit_value b) * 16 + hex_digit_value c)
          * 16 + hex_digit_value d)"
    by (simp only: s1 s2 s3 s4 s5)
  also have "\<dots> = Some (hex_value hs)"
    by (simp add: hex_value_def hs)
  finally show ?thesis
    using at(1) by (simp add: decode_unicode_escape_def char_to_int_def)
qed

lemma utf8_encode_pair:
  assumes "0xD800 \<le> hi" "hi \<le> 0xDBFF" "0xDC00 \<le> lo" "lo \<le> 0xDFFF"
  shows "\<exists>bs. utf8_encode ((hi - 0xD800) * 1024 + (lo - 0xDC00) + 0x10000) = Some bs \<and>
     length bs = 4"
  using assms by (simp add: utf8_encode_def)

text \<open>
  The second pass at an escape \<^verbatim>\<open>\uXXXX\<close> of four hexadecimal digits, \<open>hs\<close>, followed by
  the text \<open>r\<close>, with \<open>t\<close> written so far.
\<close>

lemma decode_string_escape:
  assumes "length hs = 4" "list_all is_hex_byte hs"
  shows "decode_string (0x5C # 0x75 # hs @ r) t =
     (let v = hex_value hs
      in if 0xD800 \<le> v \<and> v \<le> 0xDBFF
         then
           (if cstr_at r 0 = 0x5C \<and> cstr_at r 1 = 0x75
            then
              (case decode_unicode_escape (drop 1 r) of
                 None \<Rightarrow> None
               | Some v2 \<Rightarrow>
                   (if 0xDC00 \<le> v2 \<and> v2 \<le> 0xDFFF
                    then
                      (case utf8_encode ((v - 0xD800) * 1024 + (v2 - 0xDC00) + 0x10000) of
                         None \<Rightarrow> None
                       | Some bs \<Rightarrow> decode_string (drop 5 (drop 1 r)) (t @ bs))
                    else Some (Inl (msg_invalid_unicode2 v v2))))
            else Some (Inl (msg_invalid_unicode v)))
         else if 0xDC00 \<le> v \<and> v \<le> 0xDFFF then Some (Inl (msg_invalid_unicode v))
         else if v = 0 then Some (Inl msg_u0000)
         else
           (case utf8_encode v of
              None \<Rightarrow> None
            | Some bs \<Rightarrow> decode_string r (t @ bs)))"
  using assms decode_unicode_escape_hex [OF assms, of r]
  by (subst decode_string.simps) (simp add: cstr_at_def Let_def)

text \<open>
  On escapes of four hexadecimal digits the second pass does what the spec says: a high
  surrogate followed by a low one is written as the four bytes of the code point of the
  pair; a high surrogate followed by an escape that is no low surrogate, or by no escape,
  a low surrogate alone, and \<^verbatim>\<open>\u0000\<close> leave the loop with a message.
\<close>

lemma decode_string_surrogates:
  assumes "length hs = 4" "list_all is_hex_byte hs"
  shows
  "(0xD800 \<le> hex_value hs \<and> hex_value hs \<le> 0xDBFF \<and> length ls = 4 \<and> list_all is_hex_byte ls \<and>
    0xDC00 \<le> hex_value ls \<and> hex_value ls \<le> 0xDFFF \<longrightarrow>
      (\<exists>bs. utf8_encode ((hex_value hs - 0xD800) * 1024 + (hex_value ls - 0xDC00) + 0x10000)
              = Some bs \<and> length bs = 4 \<and>
            decode_string (0x5C # 0x75 # hs @ 0x5C # 0x75 # ls @ r) t
              = decode_string r (t @ bs))) \<and>
   (0xD800 \<le> hex_value hs \<and> hex_value hs \<le> 0xDBFF \<and> length ls = 4 \<and> list_all is_hex_byte ls \<and>
    \<not> (0xDC00 \<le> hex_value ls \<and> hex_value ls \<le> 0xDFFF) \<longrightarrow>
      decode_string (0x5C # 0x75 # hs @ 0x5C # 0x75 # ls @ r) t
        = Some (Inl (msg_invalid_unicode2 (hex_value hs) (hex_value ls)))) \<and>
   (0xD800 \<le> hex_value hs \<and> hex_value hs \<le> 0xDBFF \<and>
    \<not> (cstr_at r 0 = 0x5C \<and> cstr_at r 1 = 0x75) \<longrightarrow>
      decode_string (0x5C # 0x75 # hs @ r) t = Some (Inl (msg_invalid_unicode (hex_value hs)))) \<and>
   (0xDC00 \<le> hex_value hs \<and> hex_value hs \<le> 0xDFFF \<longrightarrow>
      decode_string (0x5C # 0x75 # hs @ r) t = Some (Inl (msg_invalid_unicode (hex_value hs)))) \<and>
   (hex_value hs = 0 \<longrightarrow> decode_string (0x5C # 0x75 # hs @ r) t = Some (Inl msg_u0000))"
proof (intro conjI impI)
  assume h: "0xD800 \<le> hex_value hs \<and> hex_value hs \<le> 0xDBFF \<and> length ls = 4 \<and>
    list_all is_hex_byte ls \<and> 0xDC00 \<le> hex_value ls \<and> hex_value ls \<le> 0xDFFF"
  then obtain bs where bs:
    "utf8_encode ((hex_value hs - 0xD800) * 1024 + (hex_value ls - 0xDC00) + 0x10000) = Some bs"
    "length bs = 4"
    using utf8_encode_pair [of "hex_value hs" "hex_value ls"] by blast
  from h have d: "decode_unicode_escape (0x75 # ls @ r) = Some (hex_value ls)"
    using decode_unicode_escape_hex [of ls r] by blast
  from h bs d have "decode_string (0x5C # 0x75 # hs @ 0x5C # 0x75 # ls @ r) t
      = decode_string r (t @ bs)"
    by (simp add: decode_string_escape [OF assms] cstr_at_def Let_def)
  with bs show "\<exists>bs. utf8_encode ((hex_value hs - 0xD800) * 1024 + (hex_value ls - 0xDC00) + 0x10000)
              = Some bs \<and> length bs = 4 \<and>
            decode_string (0x5C # 0x75 # hs @ 0x5C # 0x75 # ls @ r) t
              = decode_string r (t @ bs)"
    by blast
next
  assume h: "0xD800 \<le> hex_value hs \<and> hex_value hs \<le> 0xDBFF \<and> length ls = 4 \<and>
    list_all is_hex_byte ls \<and> \<not> (0xDC00 \<le> hex_value ls \<and> hex_value ls \<le> 0xDFFF)"
  then have d: "decode_unicode_escape (0x75 # ls @ r) = Some (hex_value ls)"
    using decode_unicode_escape_hex [of ls r] by blast
  from h d show "decode_string (0x5C # 0x75 # hs @ 0x5C # 0x75 # ls @ r) t
        = Some (Inl (msg_invalid_unicode2 (hex_value hs) (hex_value ls)))"
    by (auto simp add: decode_string_escape [OF assms] cstr_at_def Let_def)
next
  assume "0xD800 \<le> hex_value hs \<and> hex_value hs \<le> 0xDBFF \<and>
    \<not> (cstr_at r 0 = 0x5C \<and> cstr_at r 1 = 0x75)"
  then show "decode_string (0x5C # 0x75 # hs @ r) t = Some (Inl (msg_invalid_unicode (hex_value hs)))"
    by (auto simp add: decode_string_escape [OF assms] Let_def)
next
  assume "0xDC00 \<le> hex_value hs \<and> hex_value hs \<le> 0xDFFF"
  then show "decode_string (0x5C # 0x75 # hs @ r) t = Some (Inl (msg_invalid_unicode (hex_value hs)))"
    by (auto simp add: decode_string_escape [OF assms] Let_def)
next
  assume "hex_value hs = 0"
  then show "decode_string (0x5C # 0x75 # hs @ r) t = Some (Inl msg_u0000)"
    by (simp add: decode_string_escape [OF assms] Let_def)
qed


lemma surrogate_pair_example:
  "json_loadb 10 ([0x22, 0x5C] @ str ''uD83D'' @ [0x5C] @ str ''uDE00'' @ [0x22])
      (flags_default\<lparr>decode_any := True\<rparr>) True
   = Returned (Some (JSON_STRING [0xF0, 0x9F, 0x98, 0x80]),
       Some ((error_fresh (str ''<buffer>''))\<lparr>err_position := 14\<rparr>))"
  by code_simp

lemma non_hex_surrogate_example:
  "json_loadb 10 ([0x22, 0x5C] @ str ''uD83D'' @ [0x5C] @ str ''uCS00'' @ [0x22])
      (flags_default\<lparr>decode_any := True\<rparr>) True
   = Returned (Some (JSON_STRING [0xF0, 0x9F, 0x90, 0x80]),
       Some ((error_fresh (str ''<buffer>''))\<lparr>err_position := 14\<rparr>))"
  by code_simp

lemma non_hex_surrogate_abort:
  "json_loadb 10 ([0x22, 0x5C] @ str ''uD83D'' @ [0x5C] @ str ''u!!!!'' @ [0x22])
      (flags_default\<lparr>decode_any := True\<rparr>) True
   = Assert_failed"
  by code_simp

lemma non_hex_digits: "\<not> list_all is_hex_byte (str ''CS00'')"
  by code_simp

text \<open>
  Claim C2. The first pass lets an escape through that is not of hexadecimal digits (see
  C1), and the second pass reads the letters after \<^verbatim>\<open>F\<close> as digits of their own: in
  \<^verbatim>\<open>"\uD83D\uCS00"\<close> the high surrogate is followed by \<^verbatim>\<open>\uCS00\<close>, which is no escape of
  a low surrogate, and the text is accepted as the string of the bytes F0 9F 90 80, the
  four characters being read as DC00; in \<^verbatim>\<open>"\uD83D\u!!!!"\<close> the assertion of
  \<^verbatim>\<open>decode_unicode_escape\<close> stops the program. The pair \<^verbatim>\<open>"\uD83D\uDE00"\<close> gives the
  bytes F0 9F 98 80.
\<close>

theorem decode_string_non_hex_low_surrogate:
  "\<not> list_all is_hex_byte (str ''CS00'') \<and>
   json_loadb 10 ([0x22, 0x5C] @ str ''uD83D'' @ [0x5C] @ str ''uCS00'' @ [0x22])
      (flags_default\<lparr>decode_any := True\<rparr>) True
   = Returned (Some (JSON_STRING [0xF0, 0x9F, 0x90, 0x80]),
       Some ((error_fresh (str ''<buffer>''))\<lparr>err_position := 14\<rparr>)) \<and>
   json_loadb 10 ([0x22, 0x5C] @ str ''uD83D'' @ [0x5C] @ str ''u!!!!'' @ [0x22])
      (flags_default\<lparr>decode_any := True\<rparr>) True
   = Assert_failed \<and>
   json_loadb 10 ([0x22, 0x5C] @ str ''uD83D'' @ [0x5C] @ str ''uDE00'' @ [0x22])
      (flags_default\<lparr>decode_any := True\<rparr>) True
   = Returned (Some (JSON_STRING [0xF0, 0x9F, 0x98, 0x80]),
       Some ((error_fresh (str ''<buffer>''))\<lparr>err_position := 14\<rparr>))"
  using non_hex_digits non_hex_surrogate_example non_hex_surrogate_abort surrogate_pair_example
  by blast

subsection \<open>Trailing commas\<close>

lemma trailing_comma_object_example:
  "json_loadb 10 (str ''{\"a\":1,}'') flags_default True
   = Returned (None,
       Some \<lparr>err_line = 1, err_column = 8, err_position = 8, err_source = str ''<buffer>'',
         err_text = str ''string or '' @ [0x27] @ str ''}'' @ [0x27] @ str '' expected near '' @ [0x27] @ str ''}'' @ [0x27]\<rparr>)"
  by code_simp

lemma trailing_comma_array_example:
  "json_loadb 10 (str ''[1,]'') flags_default True
   = Returned (None,
       Some \<lparr>err_line = 1, err_column = 4, err_position = 4, err_source = str ''<buffer>'',
         err_text = str ''unexpected token near '' @ [0x27] @ str '']'' @ [0x27]\<rparr>)"
  by code_simp

text \<open>
  Claim C10. In the loop of \<^verbatim>\<open>parse_object\<close>, when a member has been read and the token
  after its value is a comma followed by the token \<^verbatim>\<open>}\<close> (\<^verbatim>\<open>lex_scan\<close> skips the
  whitespace before a token), the next turn of the loop reports
  \<open>string or '}' expected\<close> and a null value is returned. In the loop of
  \<^verbatim>\<open>parse_array\<close>, when the token after an element is a comma followed by the token
  \<^verbatim>\<open>]\<close>, \<^verbatim>\<open>parse_value\<close> reports \<open>unexpected token\<close> and a null value is returned. So
  for the texts \<^verbatim>\<open>{"a":1,}\<close> and \<^verbatim>\<open>[1,]\<close>.
\<close>

theorem trailing_comma_rejected:
  "(3 \<le> fuel \<and> token lx = TOKEN_STRING \<and> lex_value lx = V_string (Some key) \<and>
    \<not> (reject_duplicates flags \<and> json_object_get (JSON_OBJECT kvs) key \<noteq> None) \<and>
    lex_scan (lx\<lparr>lex_value := V_string None\<rparr>) e = Some (lx2, e2) \<and> token lx2 = ch CHR '':'' \<and>
    lex_scan lx2 e2 = Some (lx3, e3) \<and>
    parse_value (fuel - 1) lx3 flags e3 = Returned (Some v, lx4, e4) \<and>
    lex_scan lx4 e4 = Some (lx5, e5) \<and> token lx5 = ch CHR '','' \<and>
    lex_scan lx5 e5 = Some (lx6, e6) \<and> token lx6 = ch CHR ''}'' \<longrightarrow>
      parse_object_loop fuel (JSON_OBJECT kvs) lx flags e
        = Returned (None, lx6, error_set e6 (Some lx6) msg_string_or_brace)) \<and>
   (3 \<le> fuel \<and> token lx \<noteq> 0 \<and>
    parse_value (fuel - 1) lx flags e = Returned (Some v, lx4, e4) \<and>
    lex_scan lx4 e4 = Some (lx5, e5) \<and> token lx5 = ch CHR '','' \<and>
    lex_scan lx5 e5 = Some (lx6, e6) \<and> token lx6 = ch CHR '']'' \<longrightarrow>
      parse_array_loop fuel (JSON_ARRAY xs) lx flags e
        = Returned (None, lx6, error_set e6 (Some lx6) (str ''unexpected token''))) \<and>
   json_loadb 10 (str ''{\"a\":1,}'') flags_default True
     = Returned (None,
         Some \<lparr>err_line = 1, err_column = 8, err_position = 8, err_source = str ''<buffer>'',
           err_text = str ''string or '' @ [0x27] @ str ''}'' @ [0x27] @ str '' expected near '' @ [0x27] @ str ''}'' @ [0x27]\<rparr>) \<and>
   json_loadb 10 (str ''[1,]'') flags_default True
     = Returned (None,
         Some \<lparr>err_line = 1, err_column = 4, err_position = 4, err_source = str ''<buffer>'',
           err_text = str ''unexpected token near '' @ [0x27] @ str '']'' @ [0x27]\<rparr>)"
proof (intro conjI impI)
  assume h: "3 \<le> fuel \<and> token lx = TOKEN_STRING \<and> lex_value lx = V_string (Some key) \<and>
    \<not> (reject_duplicates flags \<and> json_object_get (JSON_OBJECT kvs) key \<noteq> None) \<and>
    lex_scan (lx\<lparr>lex_value := V_string None\<rparr>) e = Some (lx2, e2) \<and> token lx2 = ch CHR '':'' \<and>
    lex_scan lx2 e2 = Some (lx3, e3) \<and>
    parse_value (fuel - 1) lx3 flags e3 = Returned (Some v, lx4, e4) \<and>
    lex_scan lx4 e4 = Some (lx5, e5) \<and> token lx5 = ch CHR '','' \<and>
    lex_scan lx5 e5 = Some (lx6, e6) \<and> token lx6 = ch CHR ''}''"
  then have "fuel \<noteq> 0" "fuel - 1 \<noteq> 0" "token lx6 \<noteq> TOKEN_STRING"
    by auto
  with h show "parse_object_loop fuel (JSON_OBJECT kvs) lx flags e
        = Returned (None, lx6, error_set e6 (Some lx6) msg_string_or_brace)"
    using parse_object_loop_member [of fuel lx key flags kvs e lx2 e2 lx3 e3 v lx4 e4 lx5 e5]
      parse_object_loop_not_string [of "fuel - 1" lx6 "JSON_OBJECT (object_update key v kvs)" flags e6]
    by simp
next
  assume h: "3 \<le> fuel \<and> token lx \<noteq> 0 \<and>
    parse_value (fuel - 1) lx flags e = Returned (Some v, lx4, e4) \<and>
    lex_scan lx4 e4 = Some (lx5, e5) \<and> token lx5 = ch CHR '','' \<and>
    lex_scan lx5 e5 = Some (lx6, e6) \<and> token lx6 = ch CHR '']''"
  then have "fuel \<noteq> 0" "2 \<le> fuel - 1"
    by auto
  with h show "parse_array_loop fuel (JSON_ARRAY xs) lx flags e
        = Returned (None, lx6, error_set e6 (Some lx6) (str ''unexpected token''))"
    using parse_array_loop_element [of fuel lx flags e v lx4 e4 lx5 e5 xs]
      parse_array_loop_bracket [of "fuel - 1" lx6 "JSON_ARRAY (xs @ [v])" flags e6]
    by simp
qed (rule trailing_comma_object_example trailing_comma_array_example)+


theorem trailing_comma_rejected_witness:
  "parse_object_loop 3 (JSON_OBJECT []) (lex_after 2 (str ''{\"a\":1,}'')) flags_default
      (error_after 2 (str ''{\"a\":1,}''))
     = Returned (None, lex_after 6 (str ''{\"a\":1,}''),
         error_set (error_after 6 (str ''{\"a\":1,}'')) (Some (lex_after 6 (str ''{\"a\":1,}'')))
           msg_string_or_brace) \<and>
   parse_array_loop 3 (JSON_ARRAY []) (lex_after 2 (str ''[1,]'')) flags_default
      (error_after 2 (str ''[1,]''))
     = Returned (None, lex_after 4 (str ''[1,]''),
         error_set (error_after 4 (str ''[1,]'')) (Some (lex_after 4 (str ''[1,]'')))
           (str ''unexpected token''))"
proof -
  let ?S = "str ''{\"a\":1,}''" and ?A = "str ''[1,]''"
  have o1: "token (lex_after 2 ?S) = TOKEN_STRING"
    by code_simp
  have o2: "lex_value (lex_after 2 ?S) = V_string (Some (str ''a''))"
    by code_simp
  have o3: "\<not> (reject_duplicates flags_default \<and> json_object_get (JSON_OBJECT []) (str ''a'') \<noteq> None)"
    by code_simp
  have o4: "lex_scan ((lex_after 2 ?S)\<lparr>lex_value := V_string None\<rparr>) (error_after 2 ?S)
      = Some (lex_after 3 ?S, error_after 3 ?S)"
    by code_simp
  have o5: "token (lex_after 3 ?S) = ch CHR '':''"
    by code_simp
  have o6: "lex_scan (lex_after 3 ?S) (error_after 3 ?S) = Some (lex_after 4 ?S, error_after 4 ?S)"
    by code_simp
  have o7: "parse_value (3 - 1) (lex_after 4 ?S) flags_default (error_after 4 ?S)
      = Returned (Some (JSON_INTEGER 1), lex_after 4 ?S, error_after 4 ?S)"
    by code_simp
  have o8: "lex_scan (lex_after 4 ?S) (error_after 4 ?S) = Some (lex_after 5 ?S, error_after 5 ?S)"
    by code_simp
  have o9: "token (lex_after 5 ?S) = ch CHR '',''"
    by code_simp
  have o10: "lex_scan (lex_after 5 ?S) (error_after 5 ?S) = Some (lex_after 6 ?S, error_after 6 ?S)"
    by code_simp
  have o11: "token (lex_after 6 ?S) = ch CHR ''}''"
    by code_simp
  have a1: "token (lex_after 2 ?A) \<noteq> 0"
    by code_simp
  have a2: "parse_value (3 - 1) (lex_after 2 ?A) flags_default (error_after 2 ?A)
      = Returned (Some (JSON_INTEGER 1), lex_after 2 ?A, error_after 2 ?A)"
    by code_simp
  have a3: "lex_scan (lex_after 2 ?A) (error_after 2 ?A) = Some (lex_after 3 ?A, error_after 3 ?A)"
    by code_simp
  have a4: "token (lex_after 3 ?A) = ch CHR '',''"
    by code_simp
  have a5: "lex_scan (lex_after 3 ?A) (error_after 3 ?A) = Some (lex_after 4 ?A, error_after 4 ?A)"
    by code_simp
  have a6: "token (lex_after 4 ?A) = ch CHR '']''"
    by code_simp
  have obj: "parse_object_loop 3 (JSON_OBJECT []) (lex_after 2 ?S) flags_default (error_after 2 ?S)
     = Returned (None, lex_after 6 ?S,
         error_set (error_after 6 ?S) (Some (lex_after 6 ?S)) msg_string_or_brace)"
    using trailing_comma_rejected [where fuel = 3 and lx = "lex_after 2 ?S" and key = "str ''a''"
        and flags = flags_default and kvs = "[]" and e = "error_after 2 ?S"
        and ?lx2.0 = "lex_after 3 ?S" and ?e2.0 = "error_after 3 ?S"
        and ?lx3.0 = "lex_after 4 ?S" and ?e3.0 = "error_after 4 ?S"
        and v = "JSON_INTEGER 1"
        and ?lx4.0 = "lex_after 4 ?S" and ?e4.0 = "error_after 4 ?S"
        and ?lx5.0 = "lex_after 5 ?S" and ?e5.0 = "error_after 5 ?S"
        and ?lx6.0 = "lex_after 6 ?S" and ?e6.0 = "error_after 6 ?S"]
      o1 o2 o3 o4 o5 o6 o7 o8 o9 o10 o11
    by simp
  have arr: "parse_array_loop 3 (JSON_ARRAY []) (lex_after 2 ?A) flags_default (error_after 2 ?A)
     = Returned (None, lex_after 4 ?A,
         error_set (error_after 4 ?A) (Some (lex_after 4 ?A)) (str ''unexpected token''))"
    using trailing_comma_rejected [where fuel = 3 and lx = "lex_after 2 ?A"
        and flags = flags_default and xs = "[]" and e = "error_after 2 ?A"
        and v = "JSON_INTEGER 1"
        and ?lx4.0 = "lex_after 2 ?A" and ?e4.0 = "error_after 2 ?A"
        and ?lx5.0 = "lex_after 3 ?A" and ?e5.0 = "error_after 3 ?A"
        and ?lx6.0 = "lex_after 4 ?A" and ?e6.0 = "error_after 4 ?A"]
      a1 a2 a3 a4 a5 a6
    by simp
  from obj arr show ?thesis
    by simp
qed

subsection \<open>Duplicate keys\<close>

lemma duplicate_allowed_example:
  "json_loadb 10 (str ''{\"a\":1,\"a\":2}'') flags_default True
   = Returned (Some (JSON_OBJECT [(str ''a'', JSON_INTEGER 2)]),
       Some ((error_fresh (str ''<buffer>''))\<lparr>err_position := 13\<rparr>))"
  by code_simp

lemma duplicate_rejected_example:
  "json_loadb 10 (str ''{\"a\":1,\"a\":2}'') (flags_default\<lparr>reject_duplicates := True\<rparr>) True
   = Returned (None,
       Some \<lparr>err_line = 1, err_column = 10, err_position = 10, err_source = str ''<buffer>'',
         err_text = str ''duplicate object key near '' @ [0x27] @ str ''\"a\"'' @ [0x27]\<rparr>)"
  by code_simp

lemma distinct_keys_example:
  "json_loadb 10 (str ''{\"a\":1,\"b\":2}'') (flags_default\<lparr>reject_duplicates := True\<rparr>) True
   = Returned (Some (JSON_OBJECT [(str ''a'', JSON_INTEGER 1), (str ''b'', JSON_INTEGER 2)]),
       Some ((error_fresh (str ''<buffer>''))\<lparr>err_position := 13\<rparr>))"
  by code_simp

text \<open>
  Claim C5. A turn of the loop of \<^verbatim>\<open>parse_object\<close> that starts at a key: with
  \<^verbatim>\<open>JSON_REJECT_DUPLICATES\<close> and the key already in the object built so far, it returns
  null and reports \<open>duplicate object key\<close>; in every other case the key is not refused:
  the member is read and the object goes on with the key set to the new value, every other
  key as it was, and the keys in the order of their first insertion. So the text
  \<^verbatim>\<open>{"a":1,"a":2}\<close> gives an object with \<open>a\<close> = 2 without the flag and the error with it,
  and distinct keys pass with the flag.
\<close>

theorem duplicate_keys:
  "(fuel \<noteq> 0 \<and> token lx = TOKEN_STRING \<and> lex_value lx = V_string (Some key) \<and>
    reject_duplicates flags \<and> json_object_get object key \<noteq> None \<longrightarrow>
      parse_object_loop fuel object lx flags e
        = Returned (None, lx\<lparr>lex_value := V_string None\<rparr>,
            error_set e (Some (lx\<lparr>lex_value := V_string None\<rparr>)) (str ''duplicate object key''))) \<and>
   (fuel \<noteq> 0 \<and> token lx = TOKEN_STRING \<and> lex_value lx = V_string (Some key) \<and>
    \<not> (reject_duplicates flags \<and> json_object_get (JSON_OBJECT kvs) key \<noteq> None) \<and>
    lex_scan (lx\<lparr>lex_value := V_string None\<rparr>) e = Some (lx2, e2) \<and> token lx2 = ch CHR '':'' \<and>
    lex_scan lx2 e2 = Some (lx3, e3) \<and>
    parse_value (fuel - 1) lx3 flags e3 = Returned (Some v, lx4, e4) \<and>
    lex_scan lx4 e4 = Some (lx5, e5) \<longrightarrow>
      parse_object_loop fuel (JSON_OBJECT kvs) lx flags e
        = (if token lx5 \<noteq> ch CHR '',''
           then parse_object_end (JSON_OBJECT (object_update key v kvs)) lx5 e5
           else (case lex_scan lx5 e5 of
                   None \<Rightarrow> Assert_failed
                 | Some (lx6, e6) \<Rightarrow>
                     parse_object_loop (fuel - 1) (JSON_OBJECT (object_update key v kvs)) lx6
                       flags e6)) \<and>
      (\<forall>k. json_object_get (JSON_OBJECT (object_update key v kvs)) k
             = (if k = key then Some v else json_object_get (JSON_OBJECT kvs) k)) \<and>
      map fst (object_update key v kvs)
        = (if key \<in> set (map fst kvs) then map fst kvs else map fst kvs @ [key])) \<and>
   json_loadb 10 (str ''{\"a\":1,\"a\":2}'') flags_default True
     = Returned (Some (JSON_OBJECT [(str ''a'', JSON_INTEGER 2)]),
         Some ((error_fresh (str ''<buffer>''))\<lparr>err_position := 13\<rparr>)) \<and>
   json_loadb 10 (str ''{\"a\":1,\"a\":2}'') (flags_default\<lparr>reject_duplicates := True\<rparr>) True
     = Returned (None,
         Some \<lparr>err_line = 1, err_column = 10, err_position = 10, err_source = str ''<buffer>'',
           err_text = str ''duplicate object key near '' @ [0x27] @ str ''\"a\"'' @ [0x27]\<rparr>) \<and>
   json_loadb 10 (str ''{\"a\":1,\"b\":2}'') (flags_default\<lparr>reject_duplicates := True\<rparr>) True
     = Returned (Some (JSON_OBJECT [(str ''a'', JSON_INTEGER 1), (str ''b'', JSON_INTEGER 2)]),
         Some ((error_fresh (str ''<buffer>''))\<lparr>err_position := 13\<rparr>))"
proof (intro conjI impI allI)
  fix k
  show "json_object_get (JSON_OBJECT (object_update key v kvs)) k
      = (if k = key then Some v else json_object_get (JSON_OBJECT kvs) k)"
    by (rule json_object_get_set)
next
  show "map fst (object_update key v kvs)
        = (if key \<in> set (map fst kvs) then map fst kvs else map fst kvs @ [key])"
    by (rule object_update_keys)
next
  assume "fuel \<noteq> 0 \<and> token lx = TOKEN_STRING \<and> lex_value lx = V_string (Some key) \<and>
    reject_duplicates flags \<and> json_object_get object key \<noteq> None"
  then show "parse_object_loop fuel object lx flags e
        = Returned (None, lx\<lparr>lex_value := V_string None\<rparr>,
            error_set e (Some (lx\<lparr>lex_value := V_string None\<rparr>)) (str ''duplicate object key''))"
    using parse_object_loop_duplicate [of fuel lx key flags object e] by blast
next
  assume "fuel \<noteq> 0 \<and> token lx = TOKEN_STRING \<and> lex_value lx = V_string (Some key) \<and>
    \<not> (reject_duplicates flags \<and> json_object_get (JSON_OBJECT kvs) key \<noteq> None) \<and>
    lex_scan (lx\<lparr>lex_value := V_string None\<rparr>) e = Some (lx2, e2) \<and> token lx2 = ch CHR '':'' \<and>
    lex_scan lx2 e2 = Some (lx3, e3) \<and>
    parse_value (fuel - 1) lx3 flags e3 = Returned (Some v, lx4, e4) \<and>
    lex_scan lx4 e4 = Some (lx5, e5)"
  then show "parse_object_loop fuel (JSON_OBJECT kvs) lx flags e
        = (if token lx5 \<noteq> ch CHR '',''
           then parse_object_end (JSON_OBJECT (object_update key v kvs)) lx5 e5
           else (case lex_scan lx5 e5 of
                   None \<Rightarrow> Assert_failed
                 | Some (lx6, e6) \<Rightarrow>
                     parse_object_loop (fuel - 1) (JSON_OBJECT (object_update key v kvs)) lx6
                       flags e6))"
    using parse_object_loop_member [of fuel lx key flags kvs e lx2 e2 lx3 e3 v lx4 e4 lx5 e5]
    by blast
qed (rule duplicate_allowed_example duplicate_rejected_example distinct_keys_example)+

theorem duplicate_keys_witness:
  "parse_object_loop 2 (JSON_OBJECT [(str ''a'', JSON_INTEGER 1)]) (lex_after 6 (str ''{\"a\":1,\"a\":2}''))
      (flags_default\<lparr>reject_duplicates := True\<rparr>) (error_after 6 (str ''{\"a\":1,\"a\":2}''))
     = Returned (None, (lex_after 6 (str ''{\"a\":1,\"a\":2}''))\<lparr>lex_value := V_string None\<rparr>,
         error_set (error_after 6 (str ''{\"a\":1,\"a\":2}''))
           (Some ((lex_after 6 (str ''{\"a\":1,\"a\":2}''))\<lparr>lex_value := V_string None\<rparr>))
           (str ''duplicate object key'')) \<and>
   parse_object_loop 2 (JSON_OBJECT [(str ''a'', JSON_INTEGER 1)]) (lex_after 6 (str ''{\"a\":1,\"a\":2}''))
      flags_default (error_after 6 (str ''{\"a\":1,\"a\":2}''))
     = parse_object_end (JSON_OBJECT (object_update (str ''a'') (JSON_INTEGER 2) [(str ''a'', JSON_INTEGER 1)]))
         (lex_after 9 (str ''{\"a\":1,\"a\":2}'')) (error_after 9 (str ''{\"a\":1,\"a\":2}'')) \<and>
   json_object_get (JSON_OBJECT (object_update (str ''a'') (JSON_INTEGER 2) [(str ''a'', JSON_INTEGER 1)]))
      (str ''a'') = Some (JSON_INTEGER 2)"
proof -
  let ?S = "str ''{\"a\":1,\"a\":2}''"
  let ?kvs = "[(str ''a'', JSON_INTEGER 1)]"
  have o0: "(2::nat) \<noteq> 0"
    by simp
  have o1: "token (lex_after 6 ?S) = TOKEN_STRING"
    by code_simp
  have o2: "lex_value (lex_after 6 ?S) = V_string (Some (str ''a''))"
    by code_simp
  have r1: "reject_duplicates (flags_default\<lparr>reject_duplicates := True\<rparr>)"
    by simp
  have r2: "json_object_get (JSON_OBJECT ?kvs) (str ''a'') \<noteq> None"
    by simp
  have o3: "\<not> (reject_duplicates flags_default \<and> json_object_get (JSON_OBJECT ?kvs) (str ''a'') \<noteq> None)"
    by (simp add: flags_default_def)
  have o4: "lex_scan ((lex_after 6 ?S)\<lparr>lex_value := V_string None\<rparr>) (error_after 6 ?S)
      = Some (lex_after 7 ?S, error_after 7 ?S)"
    by code_simp
  have o5: "token (lex_after 7 ?S) = ch CHR '':''"
    by code_simp
  have o6: "lex_scan (lex_after 7 ?S) (error_after 7 ?S) = Some (lex_after 8 ?S, error_after 8 ?S)"
    by code_simp
  have o7: "parse_value (2 - 1) (lex_after 8 ?S) flags_default (error_after 8 ?S)
      = Returned (Some (JSON_INTEGER 2), lex_after 8 ?S, error_after 8 ?S)"
    by code_simp
  have o8: "lex_scan (lex_after 8 ?S) (error_after 8 ?S) = Some (lex_after 9 ?S, error_after 9 ?S)"
    by code_simp
  have o9: "token (lex_after 9 ?S) \<noteq> ch CHR '',''"
    by code_simp
  have rej: "parse_object_loop 2 (JSON_OBJECT ?kvs) (lex_after 6 ?S)
      (flags_default\<lparr>reject_duplicates := True\<rparr>) (error_after 6 ?S)
     = Returned (None, (lex_after 6 ?S)\<lparr>lex_value := V_string None\<rparr>,
         error_set (error_after 6 ?S) (Some ((lex_after 6 ?S)\<lparr>lex_value := V_string None\<rparr>))
           (str ''duplicate object key''))"
    using duplicate_keys [where fuel = 2 and lx = "lex_after 6 ?S" and key = "str ''a''"
        and flags = "flags_default\<lparr>reject_duplicates := True\<rparr>" and object = "JSON_OBJECT ?kvs"
        and e = "error_after 6 ?S", THEN conjunct1] o0 o1 o2 r1 r2
    by blast
  have acc: "parse_object_loop 2 (JSON_OBJECT ?kvs) (lex_after 6 ?S) flags_default (error_after 6 ?S)
     = parse_object_end (JSON_OBJECT (object_update (str ''a'') (JSON_INTEGER 2) ?kvs))
         (lex_after 9 ?S) (error_after 9 ?S) \<and>
     json_object_get (JSON_OBJECT (object_update (str ''a'') (JSON_INTEGER 2) ?kvs)) (str ''a'')
       = Some (JSON_INTEGER 2)"
    using duplicate_keys [where fuel = 2 and lx = "lex_after 6 ?S" and key = "str ''a''"
        and flags = flags_default and kvs = ?kvs and e = "error_after 6 ?S"
        and ?lx2.0 = "lex_after 7 ?S" and ?e2.0 = "error_after 7 ?S"
        and ?lx3.0 = "lex_after 8 ?S" and ?e3.0 = "error_after 8 ?S"
        and v = "JSON_INTEGER 2"
        and ?lx4.0 = "lex_after 8 ?S" and ?e4.0 = "error_after 8 ?S"
        and ?lx5.0 = "lex_after 9 ?S" and ?e5.0 = "error_after 9 ?S",
        THEN conjunct2, THEN conjunct1]
      o0 o1 o2 o3 o4 o5 o6 o7 o8 o9
    by simp
  from rej acc show ?thesis
    by simp
qed

subsection \<open>The top level\<close>

lemma scalar_refused_example:
  "json_loadb 10 (str ''42'') flags_default True
   = Returned (None,
       Some \<lparr>err_line = 1, err_column = 2, err_position = 2, err_source = str ''<buffer>'',
         err_text = [0x27] @ str ''['' @ [0x27] @ str '' or '' @ [0x27] @ str ''{'' @ [0x27] @
           str '' expected near '' @ [0x27] @ str ''42'' @ [0x27]\<rparr>)"
  by code_simp

lemma scalar_allowed_example:
  "json_loadb 10 (str ''42'') (flags_default\<lparr>decode_any := True\<rparr>) True
   = Returned (Some (JSON_INTEGER 42), Some ((error_fresh (str ''<buffer>''))\<lparr>err_position := 2\<rparr>))"
  by code_simp

lemma trailing_refused_example:
  "json_loadb 10 (str ''{} trailing'') flags_default True
   = Returned (None,
       Some \<lparr>err_line = 1, err_column = 11, err_position = 11, err_source = str ''<buffer>'',
         err_text = str ''end of file expected near '' @ [0x27] @ str ''trailing'' @ [0x27]\<rparr>)"
  by code_simp

lemma trailing_allowed_example:
  "json_loadb 10 (str ''{} trailing'') (flags_default\<lparr>disable_eof_check := True\<rparr>) True
   = Returned (Some (JSON_OBJECT []), Some ((error_fresh (str ''<buffer>''))\<lparr>err_position := 2\<rparr>))"
  by code_simp




end
